theory Spec2Isabelle
  imports Complex_Main "HOL-Library.AList"
begin

section \<open>Peer scoring of a gossipsub overlay: the promise tracker and the score engine\<close>

text \<open>
  A shallow embedding of \<^verbatim>\<open>src/ts/tracer.ts\<close>: the class \<^verbatim>\<open>IWantTracer\<close> and the class
  \<^verbatim>\<open>PeerScore\<close>.

  Conventions of the embedding.
  \<^item> A JavaScript \<^verbatim>\<open>number\<close> (a counter, a decay factor, a timestamp of \<^verbatim>\<open>Date.now()\<close>,
    a duration) is a \<^typ>\<open>real\<close>: the arithmetic is the exact one, rounding of doubles is
    not modelled.
  \<^item> A \<^verbatim>\<open>Map\<close> and a plain object used as a dictionary are association lists in insertion
    order (\<^const>\<open>map_of\<close> reads, \<^const>\<open>AList.update\<close> is \<^verbatim>\<open>set\<close>, \<^const>\<open>AList.delete\<close> is
    \<^verbatim>\<open>delete\<close>); \<^verbatim>\<open>forEach\<close> is a \<^const>\<open>fold\<close> over the entries.
  \<^item> A \<^verbatim>\<open>Set\<close> that the code iterates (\<^verbatim>\<open>drec.peers\<close>) is a duplicate-free list in
    insertion order; the buckets of \<^verbatim>\<open>peerIPs\<close>, never iterated, are sets.
  \<^item> Every method mutates \<^verbatim>\<open>this\<close>: the model takes the state and returns the new one.
    What a method reads from outside (\<^verbatim>\<open>Date.now()\<close>, the connection manager's answer)
    is an argument. The \<^verbatim>\<open>await\<close> of the message id function is not a point of
    interleaving in the model: a hook runs as one step.
  \<^item> A read of a property of \<^verbatim>\<open>undefined\<close> throws a \<^verbatim>\<open>TypeError\<close>; where the code can
    reach one, the model returns \<open>Inl TypeError\<close>.
\<close>

datatype error = TypeError

subsection \<open>Messages and rejection reasons\<close>

text \<open>
  \<^verbatim>\<open>InMessage\<close> of libp2p-interfaces: the engine reads \<^verbatim>\<open>receivedFrom\<close> and \<^verbatim>\<open>topicIDs\<close>;
  everything else of a message is seen only by the message id function.
\<close>

record InMessage =
  receivedFrom :: string
  topicIDs :: "string list"
  data :: string

text \<open>
  Modelled from the spec: the reason codes. \<^verbatim>\<open>ERR_INVALID_SIGNATURE\<close> and
  \<^verbatim>\<open>ERR_MISSING_SIGNATURE\<close> are imported from libp2p-interfaces, \<^verbatim>\<open>ERR_TOPIC_VALIDATOR_IGNORE\<close>
  from \<^verbatim>\<open>constants.ts\<close>, neither among the sources; the spec (section 6) gives them as
  string constants spelled like their names.
\<close>

definition ERR_INVALID_SIGNATURE :: string where
  "ERR_INVALID_SIGNATURE = ''ERR_INVALID_SIGNATURE''"

definition ERR_MISSING_SIGNATURE :: string where
  "ERR_MISSING_SIGNATURE = ''ERR_MISSING_SIGNATURE''"

definition ERR_TOPIC_VALIDATOR_IGNORE :: string where
  "ERR_TOPIC_VALIDATOR_IGNORE = ''ERR_TOPIC_VALIDATOR_IGNORE''"

subsection \<open>IWantTracer\<close>

text \<open>
  \<^verbatim>\<open>promises: Map<string, Map<string, number>>\<close>, per message id, per peer, the expiration
  time. \<^verbatim>\<open>getMsgId\<close> stands for \<^verbatim>\<open>messageIdToString(await this.getMsgId(msg))\<close>.
\<close>

record IWantTracer =
  getMsgId :: "InMessage \<Rightarrow> string"
  promises :: "(string \<times> (string \<times> real) list) list"

text \<open>\<^verbatim>\<open>IWantTracer.deliverMessage\<close>: \<^verbatim>\<open>this.promises.delete(msgIdStr)\<close>.\<close>

definition tracer_deliverMessage :: "InMessage \<Rightarrow> IWantTracer \<Rightarrow> IWantTracer" where
  "tracer_deliverMessage msg tr =
     (let msgIdStr = getMsgId tr msg
      in tr\<lparr>promises := AList.delete msgIdStr (promises tr)\<rparr>)"

text \<open>
  \<^verbatim>\<open>IWantTracer.rejectMessage\<close>: the \<^verbatim>\<open>switch\<close> returns at once for the two signature
  reasons; any other reason falls through to the deletion.
\<close>

definition tracer_rejectMessage :: "InMessage \<Rightarrow> string \<Rightarrow> IWantTracer \<Rightarrow> IWantTracer" where
  "tracer_rejectMessage msg reason tr =
     (if reason = ERR_INVALID_SIGNATURE \<or> reason = ERR_MISSING_SIGNATURE then tr
      else
        (let msgIdStr = getMsgId tr msg
         in tr\<lparr>promises := AList.delete msgIdStr (promises tr)\<rparr>))"

text \<open>\<^verbatim>\<open>IWantTracer.clear\<close>.\<close>

definition tracer_clear :: "IWantTracer \<Rightarrow> IWantTracer" where
  "tracer_clear tr = tr\<lparr>promises := []\<rparr>"

subsection \<open>Parameters and statistics\<close>

text \<open>
  Modelled from the spec: the types \<^verbatim>\<open>TopicScoreParams\<close> and \<^verbatim>\<open>PeerScoreParams\<close> of
  \<^verbatim>\<open>peer-score-params.ts\<close>, which is not among the sources. The records hold the fields
  that \<^verbatim>\<open>tracer.ts\<close> reads, under the names it reads them by (section 4.1 of the spec lists
  the same names). The weights, read only by \<^verbatim>\<open>computeScore\<close>, are left to it.
\<close>

record TopicScoreParams =
  firstMessageDeliveriesDecay :: real
  firstMessageDeliveriesCap :: real
  meshMessageDeliveriesDecay :: real
  meshMessageDeliveriesCap :: real
  meshMessageDeliveriesThreshold :: real
  meshMessageDeliveriesWindow :: real
  meshMessageDeliveriesActivation :: real
  meshFailurePenaltyDecay :: real
  invalidMessageDeliveriesDecay :: real

text \<open>\<open>topicParams\<close> is \<^verbatim>\<open>params.topics\<close> (the name \<open>topics\<close> is kept for \<^verbatim>\<open>pstats.topics\<close>).\<close>

record PeerScoreParams =
  topicParams :: "(string \<times> TopicScoreParams) list"
  behaviourPenaltyDecay :: real
  decayInterval :: real
  decayToZero :: real
  retainScore :: real

text \<open>
  Modelled from the spec: \<^verbatim>\<open>TopicStats\<close> and \<^verbatim>\<open>PeerStats\<close> of \<^verbatim>\<open>peer-stats.ts\<close>, which is
  not among the sources (section 3 of the spec; the field names are those \<^verbatim>\<open>tracer.ts\<close>
  uses).
\<close>

record TopicStats =
  inMesh :: bool
  graftTime :: real
  meshTime :: real
  firstMessageDeliveries :: real
  meshMessageDeliveries :: real
  meshMessageDeliveriesActive :: bool
  meshFailurePenalty :: real
  invalidMessageDeliveries :: real

record PeerStats =
  connected :: bool
  expire :: real
  topics :: "(string \<times> TopicStats) list"
  behaviourPenalty :: real
  ips :: "string list"

text \<open>
  Modelled from the spec: \<^verbatim>\<open>createTopicStats\<close> and \<^verbatim>\<open>createPeerStats\<close> of \<^verbatim>\<open>peer-stats.ts\<close>.
  A new statistics object is out of the mesh with every counter at zero; \<open>createPeerStats\<close>
  takes the value of \<^verbatim>\<open>connected\<close>, the only field \<^verbatim>\<open>addPeer\<close> passes.
\<close>

definition createTopicStats :: TopicStats where
  "createTopicStats =
     \<lparr>inMesh = False, graftTime = 0, meshTime = 0, firstMessageDeliveries = 0,
      meshMessageDeliveries = 0, meshMessageDeliveriesActive = False,
      meshFailurePenalty = 0, invalidMessageDeliveries = 0\<rparr>"

definition createPeerStats :: "bool \<Rightarrow> PeerStats" where
  "createPeerStats c =
     \<lparr>connected = c, expire = 0, topics = [], behaviourPenalty = 0, ips = []\<rparr>"

text \<open>
  Modelled from the spec: \<^verbatim>\<open>ensureTopicStats\<close> of \<^verbatim>\<open>peer-stats.ts\<close>. Section 3: a TopicStats
  exists for (peer, topic) only if the topic is in \<^verbatim>\<open>params.topics\<close>, and it is created
  lazily on the first ingest that references a scored topic. The result is \<open>None\<close> for a
  topic that is not scored, else the statistics object together with the peer's
  statistics, in which the object now is.
\<close>

definition ensureTopicStats ::
    "string \<Rightarrow> PeerStats \<Rightarrow> PeerScoreParams \<Rightarrow> (TopicStats \<times> PeerStats) option" where
  "ensureTopicStats topic pstats ps =
     (case map_of (topicParams ps) topic of
        None \<Rightarrow> None
      | Some _ \<Rightarrow>
          (case map_of (topics pstats) topic of
             Some tstats \<Rightarrow> Some (tstats, pstats)
           | None \<Rightarrow>
               Some (createTopicStats,
                     pstats\<lparr>topics := AList.update topic createTopicStats (topics pstats)\<rparr>)))"

text \<open>
  The callers of \<open>ensureTopicStats\<close> mutate the object it returns; \<open>putTopicStats\<close> stores
  the mutated object back under its topic.
\<close>

definition putTopicStats :: "string \<Rightarrow> TopicStats \<Rightarrow> PeerStats \<Rightarrow> PeerStats" where
  "putTopicStats topic tstats pstats =
     pstats\<lparr>topics := AList.update topic tstats (topics pstats)\<rparr>"

subsection \<open>Delivery records\<close>

text \<open>
  Modelled from the spec: \<^verbatim>\<open>DeliveryRecordStatus\<close>, the delivery record and the class
  \<^verbatim>\<open>MessageDeliveries\<close> of \<^verbatim>\<open>message-deliveries.ts\<close>, which is not among the sources
  (sections 3 and 4.2 of the spec). \<open>ensureRecord\<close> returns the existing record or creates
  one in \<open>Unknown\<close> with \<open>firstSeen = now\<close>, \<open>expire = now + TimeCacheDuration\<close>, and pushes
  it on the FIFO queue; \<open>clear\<close> empties both. \<open>TimeCacheDuration\<close> is a constant of
  \<^verbatim>\<open>constants.ts\<close>; it is the argument \<open>tcd\<close>.
\<close>

datatype DeliveryRecordStatus = Unknown | Valid | Invalid | Ignored

record DeliveryRecord =
  status :: DeliveryRecordStatus
  firstSeen :: real
  validated :: real
  peers :: "string list"
  expireAt :: real

record MessageDeliveries =
  records :: "(string \<times> DeliveryRecord) list"
  queue :: "string list"

definition ensureRecord ::
    "real \<Rightarrow> real \<Rightarrow> string \<Rightarrow> MessageDeliveries \<Rightarrow> DeliveryRecord \<times> MessageDeliveries" where
  "ensureRecord tcd now msgId md =
     (case map_of (records md) msgId of
        Some drec \<Rightarrow> (drec, md)
      | None \<Rightarrow>
          (let drec = \<lparr>status = Unknown, firstSeen = now, validated = 0, peers = [],
                       expireAt = now + tcd\<rparr>
           in (drec, md\<lparr>records := AList.update msgId drec (records md),
                        queue := queue md @ [msgId]\<rparr>)))"

definition deliveries_clear :: "MessageDeliveries \<Rightarrow> MessageDeliveries" where
  "deliveries_clear md = md\<lparr>records := [], queue := []\<rparr>"

text \<open>The hooks mutate the record they got; \<open>putRecord\<close> stores it back under its id.\<close>

definition putRecord :: "string \<Rightarrow> DeliveryRecord \<Rightarrow> MessageDeliveries \<Rightarrow> MessageDeliveries" where
  "putRecord msgId drec md = md\<lparr>records := AList.update msgId drec (records md)\<rparr>"

subsection \<open>The state of PeerScore\<close>

text \<open>
  The fields of the class. \<open>backgroundInterval\<close> tells whether the handle
  \<^verbatim>\<open>_backgroundInterval\<close> of the running ticker is set. \<open>msgId\<close> stands for the string of
  \<^verbatim>\<open>await this.msgId(message)\<close>. The connection manager is outside the engine: the list
  \<^verbatim>\<open>_getIPs(id)\<close> computes from it is the argument \<open>cm pid\<close> of the methods that ask.
\<close>

record PeerScore =
  params :: PeerScoreParams
  peerStats :: "(string \<times> PeerStats) list"
  peerIPs :: "(string \<times> string set) list"
  deliveryRecords :: MessageDeliveries
  msgId :: "InMessage \<Rightarrow> string"
  backgroundInterval :: bool

text \<open>The constructor (\<^verbatim>\<open>validatePeerScoreParams\<close> is not among the sources).\<close>

definition constructor :: "PeerScoreParams \<Rightarrow> (InMessage \<Rightarrow> string) \<Rightarrow> PeerScore" where
  "constructor ps mid =
     \<lparr>params = ps, peerStats = [], peerIPs = [],
      deliveryRecords = \<lparr>records = [], queue = []\<rparr>,
      msgId = mid, backgroundInterval = False\<rparr>"

text \<open>\<^verbatim>\<open>start\<close> and \<^verbatim>\<open>stop\<close>: both return early, after a log line, when there is nothing to do.\<close>

definition start :: "PeerScore \<Rightarrow> PeerScore" where
  "start s = (if backgroundInterval s then s else s\<lparr>backgroundInterval := True\<rparr>)"

definition stop :: "PeerScore \<Rightarrow> PeerScore" where
  "stop s =
     (if \<not> backgroundInterval s then s
      else s\<lparr>backgroundInterval := False, peerIPs := [], peerStats := [],
             deliveryRecords := deliveries_clear (deliveryRecords s)\<rparr>)"

subsection \<open>IP tracking\<close>

text \<open>
  \<^verbatim>\<open>_setIPs\<close>: the first labelled loop adds the peer under every new IP that is not in
  the old list, the second removes it from every old IP that is not in the new list and
  deletes a bucket that became empty. The inner loops are the membership tests.
\<close>

definition addNewIP :: "string \<Rightarrow> string list \<Rightarrow> string \<Rightarrow>
    (string \<times> string set) list \<Rightarrow> (string \<times> string set) list" where
  "addNewIP pid oldIPs ip idx =
     (if ip \<in> set oldIPs then idx
      else
        (case map_of idx ip of
           None \<Rightarrow> AList.update ip {pid} idx
         | Some bucket \<Rightarrow> AList.update ip (insert pid bucket) idx))"

definition removeIP :: "string \<Rightarrow> string \<Rightarrow>
    (string \<times> string set) list \<Rightarrow> (string \<times> string set) list" where
  "removeIP pid ip idx =
     (case map_of idx ip of
        None \<Rightarrow> idx
      | Some bucket \<Rightarrow>
          (let bucket' = bucket - {pid}
           in if bucket' = {} then AList.delete ip idx else AList.update ip bucket' idx))"

definition removeOldIP :: "string \<Rightarrow> string list \<Rightarrow> string \<Rightarrow>
    (string \<times> string set) list \<Rightarrow> (string \<times> string set) list" where
  "removeOldIP pid newIPs ip idx = (if ip \<in> set newIPs then idx else removeIP pid ip idx)"

definition setIPs :: "string \<Rightarrow> string list \<Rightarrow> string list \<Rightarrow>
    (string \<times> string set) list \<Rightarrow> (string \<times> string set) list" where
  "setIPs pid newIPs oldIPs idx =
     fold (removeOldIP pid newIPs) oldIPs (fold (addNewIP pid oldIPs) newIPs idx)"

text \<open>\<^verbatim>\<open>_removeIPs\<close>.\<close>

definition removeIPs :: "string \<Rightarrow> string list \<Rightarrow>
    (string \<times> string set) list \<Rightarrow> (string \<times> string set) list" where
  "removeIPs pid ipl idx = fold (removeIP pid) ipl idx"

text \<open>\<^verbatim>\<open>_updateIPs\<close>: every peer's list is reconciled with the connection manager's.\<close>

definition updateIPsPeer :: "(string \<Rightarrow> string list) \<Rightarrow> string \<times> PeerStats \<Rightarrow>
    PeerScore \<Rightarrow> PeerScore" where
  "updateIPsPeer cm e s =
     (case e of (pid, pstats) \<Rightarrow>
        (let newIPs = cm pid
         in s\<lparr>peerIPs := setIPs pid newIPs (ips pstats) (peerIPs s),
               peerStats := AList.update pid (pstats\<lparr>ips := newIPs\<rparr>) (peerStats s)\<rparr>))"

definition updateIPs :: "(string \<Rightarrow> string list) \<Rightarrow> PeerScore \<Rightarrow> PeerScore" where
  "updateIPs cm s = fold (updateIPsPeer cm) (peerStats s) s"

subsection \<open>Decay\<close>

text \<open>
  The step the code writes five times in \<^verbatim>\<open>_refreshScores\<close>:
  \<^verbatim>\<open>x *= decay; if (x < decayToZero) x = 0\<close>.
\<close>

definition decayCounter :: "real \<Rightarrow> real \<Rightarrow> real \<Rightarrow> real" where
  "decayCounter decay dtz x = (let y = x * decay in if y < dtz then 0 else y)"

text \<open>The body of the inner \<^verbatim>\<open>forEach\<close> over \<^verbatim>\<open>Object.entries(pstats.topics)\<close>.\<close>

definition refreshTopic :: "PeerScoreParams \<Rightarrow> real \<Rightarrow> string \<times> TopicStats \<Rightarrow>
    string \<times> TopicStats" where
  "refreshTopic ps now e =
     (case e of (topic, tstats) \<Rightarrow>
        (case map_of (topicParams ps) topic of
           None \<Rightarrow> (topic, tstats)
         | Some tparams \<Rightarrow>
             (let dtz = decayToZero ps;
                  t1 = tstats\<lparr>
                    firstMessageDeliveries :=
                      decayCounter (firstMessageDeliveriesDecay tparams) dtz
                        (firstMessageDeliveries tstats),
                    meshMessageDeliveries :=
                      decayCounter (meshMessageDeliveriesDecay tparams) dtz
                        (meshMessageDeliveries tstats),
                    meshFailurePenalty :=
                      decayCounter (meshFailurePenaltyDecay tparams) dtz
                        (meshFailurePenalty tstats),
                    invalidMessageDeliveries :=
                      decayCounter (invalidMessageDeliveriesDecay tparams) dtz
                        (invalidMessageDeliveries tstats)\<rparr>
              in if inMesh t1 then
                   (let t2 = t1\<lparr>meshTime := now - graftTime t1\<rparr>
                    in if meshTime t2 > meshMessageDeliveriesActivation tparams
                       then (topic, t2\<lparr>meshMessageDeliveriesActive := True\<rparr>)
                       else (topic, t2))
                 else (topic, t1))))"

text \<open>What the outer callback does to the statistics of a connected peer.\<close>

definition refreshConnected :: "PeerScoreParams \<Rightarrow> real \<Rightarrow> PeerStats \<Rightarrow> PeerStats" where
  "refreshConnected ps now pstats =
     pstats\<lparr>topics := map (refreshTopic ps now) (topics pstats),
            behaviourPenalty :=
              decayCounter (behaviourPenaltyDecay ps) (decayToZero ps) (behaviourPenalty pstats)\<rparr>"

text \<open>
  The callback of \<^verbatim>\<open>this.peerStats.forEach\<close> in \<^verbatim>\<open>_refreshScores\<close>: a disconnected peer is
  thrown away once \<^verbatim>\<open>now > pstats.expire\<close> and is left alone before; a connected peer is
  decayed.
\<close>

definition refreshPeer :: "real \<Rightarrow> string \<times> PeerStats \<Rightarrow> PeerScore \<Rightarrow> PeerScore" where
  "refreshPeer now e s =
     (case e of (pid, pstats) \<Rightarrow>
        (if \<not> connected pstats then
           (if now > expire pstats
            then s\<lparr>peerIPs := removeIPs pid (ips pstats) (peerIPs s),
                   peerStats := AList.delete pid (peerStats s)\<rparr>
            else s)
         else s\<lparr>peerStats :=
                  AList.update pid (refreshConnected (params s) now pstats) (peerStats s)\<rparr>))"

definition refreshScores :: "real \<Rightarrow> PeerScore \<Rightarrow> PeerScore" where
  "refreshScores now s = fold (refreshPeer now) (peerStats s) s"

subsection \<open>Counter updates\<close>

text \<open>
  After \<open>ensureTopicStats\<close> has returned a statistics object the code reads
  \<^verbatim>\<open>this.params.topics[topic]\<close> without a check. The read cannot fail there, since
  \<open>ensureTopicStats\<close> returns an object only for a topic of \<^verbatim>\<open>params.topics\<close> (lemma
  \<open>ensureTopicStats_scored\<close> below), so the \<open>None\<close> branch of that read is dead in
  \<open>markFirstTopic\<close>, \<open>markDuplicateTopic\<close> and \<open>prune\<close>; it returns its input.
\<close>

text \<open>The callback of \<^verbatim>\<open>message.topicIDs.forEach\<close> in \<^verbatim>\<open>_markInvalidMessageDelivery\<close>.\<close>

definition markInvalidTopic :: "PeerScoreParams \<Rightarrow> string \<Rightarrow> PeerStats \<Rightarrow> PeerStats" where
  "markInvalidTopic ps topic pstats =
     (case ensureTopicStats topic pstats ps of
        None \<Rightarrow> pstats
      | Some (tstats, pstats1) \<Rightarrow>
          putTopicStats topic
            (tstats\<lparr>invalidMessageDeliveries := invalidMessageDeliveries tstats + 1\<rparr>) pstats1)"

definition markInvalidMessageDelivery :: "string \<Rightarrow> InMessage \<Rightarrow> PeerScore \<Rightarrow> PeerScore" where
  "markInvalidMessageDelivery pid message s =
     (case map_of (peerStats s) pid of
        None \<Rightarrow> s
      | Some pstats \<Rightarrow>
          s\<lparr>peerStats :=
              AList.update pid (fold (markInvalidTopic (params s)) (topicIDs message) pstats)
                (peerStats s)\<rparr>)"

text \<open>The callback of \<^verbatim>\<open>message.topicIDs.forEach\<close> in \<^verbatim>\<open>_markFirstMessageDelivery\<close>.\<close>

definition markFirstTopic :: "PeerScoreParams \<Rightarrow> string \<Rightarrow> PeerStats \<Rightarrow> PeerStats" where
  "markFirstTopic ps topic pstats =
     (case ensureTopicStats topic pstats ps of
        None \<Rightarrow> pstats
      | Some (tstats, pstats1) \<Rightarrow>
          (case map_of (topicParams ps) topic of
             None \<Rightarrow> pstats1
           | Some tparams \<Rightarrow>
               (let cap = firstMessageDeliveriesCap tparams;
                    t1 = tstats\<lparr>firstMessageDeliveries := firstMessageDeliveries tstats + 1\<rparr>;
                    t2 = (if firstMessageDeliveries t1 > cap
                          then t1\<lparr>firstMessageDeliveries := cap\<rparr> else t1)
                in if \<not> inMesh t2 then putTopicStats topic t2 pstats1
                   else
                     (let capm = meshMessageDeliveriesCap tparams;
                          t3 = t2\<lparr>meshMessageDeliveries := meshMessageDeliveries t2 + 1\<rparr>;
                          t4 = (if meshMessageDeliveries t3 > capm
                                then t3\<lparr>meshMessageDeliveries := capm\<rparr> else t3)
                      in putTopicStats topic t4 pstats1))))"

definition markFirstMessageDelivery :: "string \<Rightarrow> InMessage \<Rightarrow> PeerScore \<Rightarrow> PeerScore" where
  "markFirstMessageDelivery pid message s =
     (case map_of (peerStats s) pid of
        None \<Rightarrow> s
      | Some pstats \<Rightarrow>
          s\<lparr>peerStats :=
              AList.update pid (fold (markFirstTopic (params s)) (topicIDs message) pstats)
                (peerStats s)\<rparr>)"

text \<open>
  The callback of \<^verbatim>\<open>message.topicIDs.forEach\<close> in \<^verbatim>\<open>_markDuplicateMessageDelivery\<close>.
  \<open>validatedTime\<close> is tested for truthiness, which for a number means being nonzero;
  \<open>now\<close> is the constant the method computed before the loop.
\<close>

definition markDuplicateTopic ::
    "PeerScoreParams \<Rightarrow> real \<Rightarrow> real \<Rightarrow> string \<Rightarrow> PeerStats \<Rightarrow> PeerStats" where
  "markDuplicateTopic ps validatedTime now topic pstats =
     (case ensureTopicStats topic pstats ps of
        None \<Rightarrow> pstats
      | Some (tstats, pstats1) \<Rightarrow>
          (if \<not> inMesh tstats then pstats1
           else
             (case map_of (topicParams ps) topic of
                None \<Rightarrow> pstats1
              | Some tparams \<Rightarrow>
                  (if validatedTime \<noteq> 0 \<and>
                      now > validatedTime + meshMessageDeliveriesWindow tparams
                   then pstats1
                   else
                     (let cap = meshMessageDeliveriesCap tparams;
                          t1 = tstats\<lparr>meshMessageDeliveries := meshMessageDeliveries tstats + 1\<rparr>;
                          t2 = (if meshMessageDeliveries t1 > cap
                                then t1\<lparr>meshMessageDeliveries := cap\<rparr> else t1)
                      in putTopicStats topic t2 pstats1)))))"

text \<open>
  \<^verbatim>\<open>_markDuplicateMessageDelivery(id, message, validatedTime = 0)\<close>; \<open>clock\<close> is what
  \<^verbatim>\<open>Date.now()\<close> returns, read only when \<open>validatedTime\<close> is nonzero.
\<close>

definition markDuplicateMessageDelivery ::
    "string \<Rightarrow> InMessage \<Rightarrow> real \<Rightarrow> real \<Rightarrow> PeerScore \<Rightarrow> PeerScore" where
  "markDuplicateMessageDelivery pid message validatedTime clock s =
     (case map_of (peerStats s) pid of
        None \<Rightarrow> s
      | Some pstats \<Rightarrow>
          (let now = (if validatedTime \<noteq> 0 then clock else 0)
           in s\<lparr>peerStats :=
                 AList.update pid
                   (fold (markDuplicateTopic (params s) validatedTime now) (topicIDs message)
                      pstats)
                   (peerStats s)\<rparr>))"

subsection \<open>Ingest hooks\<close>

text \<open>\<^verbatim>\<open>score\<close>; \<open>computeScore\<close> of \<^verbatim>\<open>compute-score.ts\<close> is not among the sources and is
  the argument \<open>cs\<close>.\<close>

type_synonym computeScore =
  "string \<Rightarrow> PeerStats \<Rightarrow> PeerScoreParams \<Rightarrow> (string \<times> string set) list \<Rightarrow> real"

definition score :: "computeScore \<Rightarrow> string \<Rightarrow> PeerScore \<Rightarrow> real" where
  "score cs pid s =
     (case map_of (peerStats s) pid of
        None \<Rightarrow> 0
      | Some pstats \<Rightarrow> cs pid pstats (params s) (peerIPs s))"

definition addPenalty :: "string \<Rightarrow> real \<Rightarrow> PeerScore \<Rightarrow> PeerScore" where
  "addPenalty pid penalty s =
     (case map_of (peerStats s) pid of
        None \<Rightarrow> s
      | Some pstats \<Rightarrow>
          s\<lparr>peerStats :=
              AList.update pid (pstats\<lparr>behaviourPenalty := behaviourPenalty pstats + penalty\<rparr>)
                (peerStats s)\<rparr>)"

text \<open>
  \<^verbatim>\<open>addPeer\<close>: a new statistics object is stored under the id, whatever was there, and
  \<^verbatim>\<open>_setIPs\<close> is called with the IP list of the new object as the old list.
\<close>

definition addPeer :: "(string \<Rightarrow> string list) \<Rightarrow> string \<Rightarrow> PeerScore \<Rightarrow> PeerScore" where
  "addPeer cm pid s =
     (let pstats = createPeerStats True;
          s1 = s\<lparr>peerStats := AList.update pid pstats (peerStats s)\<rparr>;
          ipl = cm pid
      in s1\<lparr>peerIPs := setIPs pid ipl (ips pstats) (peerIPs s1),
             peerStats := AList.update pid (pstats\<lparr>ips := ipl\<rparr>) (peerStats s1)\<rparr>)"

text \<open>
  The callback of \<^verbatim>\<open>Object.entries(pstats.topics).forEach\<close> in \<^verbatim>\<open>removePeer\<close>, run over
  the entries. \<^verbatim>\<open>this.params.topics[topic].meshMessageDeliveriesThreshold\<close> is read with
  no check: for a topic that has no parameters the read throws.
\<close>

fun removePeerTopics ::
    "PeerScoreParams \<Rightarrow> (string \<times> TopicStats) list \<Rightarrow> error + (string \<times> TopicStats) list" where
  "removePeerTopics ps [] = Inr []"
| "removePeerTopics ps ((topic, tstats) # rest) =
     (case map_of (topicParams ps) topic of
        None \<Rightarrow> Inl TypeError
      | Some tparams \<Rightarrow>
          (let t1 = tstats\<lparr>firstMessageDeliveries := 0\<rparr>;
               threshold = meshMessageDeliveriesThreshold tparams;
               t2 = (if inMesh t1 \<and> meshMessageDeliveriesActive t1 \<and>
                        meshMessageDeliveries t1 < threshold
                     then
                       (let deficit = threshold - meshMessageDeliveries t1
                        in t1\<lparr>meshFailurePenalty := meshFailurePenalty t1 + deficit * deficit\<rparr>)
                     else t1);
               t3 = t2\<lparr>inMesh := False\<rparr>
           in (case removePeerTopics ps rest of
                 Inl e \<Rightarrow> Inl e
               | Inr rest' \<Rightarrow> Inr ((topic, t3) # rest'))))"

definition removePeer :: "computeScore \<Rightarrow> real \<Rightarrow> string \<Rightarrow> PeerScore \<Rightarrow> error + PeerScore" where
  "removePeer cs now pid s =
     (case map_of (peerStats s) pid of
        None \<Rightarrow> Inr s
      | Some pstats \<Rightarrow>
          (if score cs pid s > 0
           then Inr (s\<lparr>peerIPs := removeIPs pid (ips pstats) (peerIPs s),
                       peerStats := AList.delete pid (peerStats s)\<rparr>)
           else
             (case removePeerTopics (params s) (topics pstats) of
                Inl e \<Rightarrow> Inl e
              | Inr ts \<Rightarrow>
                  Inr (s\<lparr>peerStats :=
                           AList.update pid
                             (pstats\<lparr>topics := ts, connected := False,
                                     expire := now + retainScore (params s)\<rparr>)
                             (peerStats s)\<rparr>))))"

definition graft :: "real \<Rightarrow> string \<Rightarrow> string \<Rightarrow> PeerScore \<Rightarrow> PeerScore" where
  "graft now pid topic s =
     (case map_of (peerStats s) pid of
        None \<Rightarrow> s
      | Some pstats \<Rightarrow>
          (case ensureTopicStats topic pstats (params s) of
             None \<Rightarrow> s
           | Some (tstats, pstats1) \<Rightarrow>
               s\<lparr>peerStats :=
                   AList.update pid
                     (putTopicStats topic
                        (tstats\<lparr>inMesh := True, graftTime := now, meshTime := 0,
                                meshMessageDeliveriesActive := False\<rparr>)
                        pstats1)
                     (peerStats s)\<rparr>))"

definition prune :: "string \<Rightarrow> string \<Rightarrow> PeerScore \<Rightarrow> PeerScore" where
  "prune pid topic s =
     (case map_of (peerStats s) pid of
        None \<Rightarrow> s
      | Some pstats \<Rightarrow>
          (case ensureTopicStats topic pstats (params s) of
             None \<Rightarrow> s
           | Some (tstats, pstats1) \<Rightarrow>
               (case map_of (topicParams (params s)) topic of
                  None \<Rightarrow> s
                | Some tparams \<Rightarrow>
                    (let threshold = meshMessageDeliveriesThreshold tparams;
                         t1 = (if meshMessageDeliveriesActive tstats \<and>
                                  meshMessageDeliveries tstats < threshold
                               then
                                 (let deficit = threshold - meshMessageDeliveries tstats
                                  in tstats\<lparr>meshFailurePenalty :=
                                       meshFailurePenalty tstats + deficit * deficit\<rparr>)
                               else tstats)
                     in s\<lparr>peerStats :=
                           AList.update pid (putTopicStats topic (t1\<lparr>inMesh := False\<rparr>) pstats1)
                             (peerStats s)\<rparr>))))"

text \<open>
  The message hooks. \<open>tcd\<close> is \<open>TimeCacheDuration\<close>, \<open>now\<close> the clock of the call.
\<close>

definition validateMessage :: "real \<Rightarrow> real \<Rightarrow> InMessage \<Rightarrow> PeerScore \<Rightarrow> PeerScore" where
  "validateMessage tcd now message s =
     s\<lparr>deliveryRecords := snd (ensureRecord tcd now (msgId s message) (deliveryRecords s))\<rparr>"

text \<open>
  \<^verbatim>\<open>deliverMessage\<close>: \<^verbatim>\<open>_markFirstMessageDelivery\<close> is the first statement, before the record
  is looked up and its status checked. In the loop over \<^verbatim>\<open>drec.peers\<close> the duplicate is
  marked with the default \<open>validatedTime = 0\<close>.
\<close>

definition deliverMessage :: "real \<Rightarrow> real \<Rightarrow> InMessage \<Rightarrow> PeerScore \<Rightarrow> PeerScore" where
  "deliverMessage tcd now message s =
     (let pid = receivedFrom message;
          s1 = markFirstMessageDelivery pid message s;
          mid = msgId s1 message;
          (drec, md) = ensureRecord tcd now mid (deliveryRecords s1);
          s2 = s1\<lparr>deliveryRecords := md\<rparr>
      in if status drec \<noteq> Unknown then s2
         else
           (let drec1 = drec\<lparr>status := Valid, validated := now\<rparr>;
                s3 = s2\<lparr>deliveryRecords := putRecord mid drec1 md\<rparr>
            in fold (\<lambda>p st. if p \<noteq> pid then markDuplicateMessageDelivery p message 0 now st
                             else st)
                 (peers drec1) s3))"

definition rejectMessage :: "real \<Rightarrow> real \<Rightarrow> InMessage \<Rightarrow> string \<Rightarrow> PeerScore \<Rightarrow> PeerScore" where
  "rejectMessage tcd now message reason s =
     (let pid = receivedFrom message
      in if reason = ERR_MISSING_SIGNATURE \<or> reason = ERR_INVALID_SIGNATURE
         then markInvalidMessageDelivery pid message s
         else
           (let mid = msgId s message;
                (drec, md) = ensureRecord tcd now mid (deliveryRecords s);
                s1 = s\<lparr>deliveryRecords := md\<rparr>
            in if status drec \<noteq> Unknown then s1
               else if reason = ERR_TOPIC_VALIDATOR_IGNORE
               then s1\<lparr>deliveryRecords := putRecord mid (drec\<lparr>status := Ignored\<rparr>) md\<rparr>
               else
                 (let drec1 = drec\<lparr>status := Invalid\<rparr>;
                      s2 = s1\<lparr>deliveryRecords := putRecord mid drec1 md\<rparr>;
                      s3 = markInvalidMessageDelivery pid message s2
                  in fold (\<lambda>p st. markInvalidMessageDelivery p message st) (peers drec1) s3)))"

definition duplicateMessage :: "real \<Rightarrow> real \<Rightarrow> InMessage \<Rightarrow> PeerScore \<Rightarrow> PeerScore" where
  "duplicateMessage tcd now message s =
     (let pid = receivedFrom message;
          mid = msgId s message;
          (drec, md) = ensureRecord tcd now mid (deliveryRecords s);
          s1 = s\<lparr>deliveryRecords := md\<rparr>
      in if pid \<in> set (peers drec) then s1
         else
           (case status drec of
              Unknown \<Rightarrow>
                s1\<lparr>deliveryRecords := putRecord mid (drec\<lparr>peers := peers drec @ [pid]\<rparr>) md\<rparr>
            | Valid \<Rightarrow>
                markDuplicateMessageDelivery pid message (validated drec) now
                  (s1\<lparr>deliveryRecords :=
                       putRecord mid (drec\<lparr>peers := peers drec @ [pid]\<rparr>) md\<rparr>)
            | Invalid \<Rightarrow> markInvalidMessageDelivery pid message s1
            | Ignored \<Rightarrow> s1))"

subsection \<open>Observations, traces and the properties stated of them\<close>

text \<open>The statistics object of a peer on a topic, when both exist.\<close>

definition topicStatsOf :: "PeerScore \<Rightarrow> string \<Rightarrow> string \<Rightarrow> TopicStats option" where
  "topicStatsOf s pid topic =
     (case map_of (peerStats s) pid of
        None \<Rightarrow> None
      | Some pstats \<Rightarrow> map_of (topics pstats) topic)"

text \<open>
  A counter of a peer on a topic, read through the field \<open>f\<close>; it counts as \<open>0\<close> while
  the statistics object is not there yet (the value it is created with).
\<close>

definition counterOf ::
    "(TopicStats \<Rightarrow> real) \<Rightarrow> PeerScore \<Rightarrow> string \<Rightarrow> string \<Rightarrow> real" where
  "counterOf f s pid topic =
     (case topicStatsOf s pid topic of None \<Rightarrow> 0 | Some tstats \<Rightarrow> f tstats)"

text \<open>The peers that \<^verbatim>\<open>peerIPs\<close> lists under an IP: \<^verbatim>\<open>peerIPs.get(ip)\<close>, empty when absent.\<close>

definition peersAt :: "PeerScore \<Rightarrow> string \<Rightarrow> string set" where
  "peersAt s ip = (case map_of (peerIPs s) ip of None \<Rightarrow> {} | Some bucket \<Rightarrow> bucket)"

text \<open>The delivery record of a message id, when there is one.\<close>

definition recordOf :: "PeerScore \<Rightarrow> string \<Rightarrow> DeliveryRecord option" where
  "recordOf s mid = map_of (records (deliveryRecords s)) mid"

text \<open>
  Well-formed states. A \<^verbatim>\<open>Map\<close> has one entry per key: the association list \<open>peerStats\<close>
  of a state that stands for an engine has distinct keys. A peer has statistics only on
  topics of \<^verbatim>\<open>params.topics\<close>. The constructor's state is well-formed and every operation
  keeps a state so (the lemmas \<open>wellFormed_\<close> below), so every state the engine reaches
  is.
\<close>

definition keysDistinct :: "PeerScore \<Rightarrow> bool" where
  "keysDistinct s \<longleftrightarrow> distinct (map fst (peerStats s))"

definition statsScored :: "PeerScoreParams \<Rightarrow> PeerStats \<Rightarrow> bool" where
  "statsScored ps pstats \<longleftrightarrow>
     (\<forall>(topic, tstats) \<in> set (topics pstats). map_of (topicParams ps) topic \<noteq> None)"

definition wellFormed :: "PeerScore \<Rightarrow> bool" where
  "wellFormed s \<longleftrightarrow>
     keysDistinct s \<and> (\<forall>(pid, pstats) \<in> set (peerStats s). statsScored (params s) pstats)"

text \<open>
  The closed form of \<open>n\<close> decay steps from \<open>x\<close>: \<open>x * decay ^ n\<close>, and \<open>0\<close> once one of the
  first \<open>n\<close> decayed values is below \<open>decayToZero\<close>.
\<close>

definition decayLaw :: "real \<Rightarrow> real \<Rightarrow> nat \<Rightarrow> real \<Rightarrow> real" where
  "decayLaw decay dtz n x =
     (if \<exists>k \<in> {1..n}. x * decay ^ k < dtz then 0 else x * decay ^ n)"

text \<open>
  What the callback of \<open>_refreshScores\<close> leaves of one peer's statistics: nothing of a
  disconnected peer past its expiry, a disconnected peer's statistics as they are before,
  a connected peer's statistics decayed.
\<close>

definition refreshedEntry :: "PeerScoreParams \<Rightarrow> real \<Rightarrow> PeerStats \<Rightarrow> PeerStats option" where
  "refreshedEntry ps now pstats =
     (if \<not> connected pstats then (if now > expire pstats then None else Some pstats)
      else Some (refreshConnected ps now pstats))"

text \<open>
  The bounds on the counters of one statistics object under its topic's parameters, and
  on a whole state: every statistics object belongs to a scored topic and is within the
  bounds, and no behaviour penalty is negative.
\<close>

definition topicStatsBounded :: "TopicScoreParams \<Rightarrow> TopicStats \<Rightarrow> bool" where
  "topicStatsBounded tparams tstats \<longleftrightarrow>
     0 \<le> firstMessageDeliveries tstats \<and>
     firstMessageDeliveries tstats \<le> firstMessageDeliveriesCap tparams \<and>
     0 \<le> meshMessageDeliveries tstats \<and>
     meshMessageDeliveries tstats \<le> meshMessageDeliveriesCap tparams \<and>
     0 \<le> meshFailurePenalty tstats \<and>
     0 \<le> invalidMessageDeliveries tstats"

definition peerStatsBounded :: "PeerScoreParams \<Rightarrow> PeerStats \<Rightarrow> bool" where
  "peerStatsBounded ps pstats \<longleftrightarrow>
     0 \<le> behaviourPenalty pstats \<and>
     (\<forall>(topic, tstats) \<in> set (topics pstats).
        case map_of (topicParams ps) topic of
          None \<Rightarrow> False
        | Some tparams \<Rightarrow> topicStatsBounded tparams tstats)"

definition counterBounds :: "PeerScore \<Rightarrow> bool" where
  "counterBounds s \<longleftrightarrow> (\<forall>(pid, pstats) \<in> set (peerStats s). peerStatsBounded (params s) pstats)"

text \<open>
  Parameters under which the bounds make sense: no cap is negative, the decay factors of
  the two capped counters are in \<open>[0, 1]\<close>, and no other decay factor is negative. The
  spec's validation asks for more (every decay factor strictly between 0 and 1).
\<close>

definition topicParamsBounded :: "TopicScoreParams \<Rightarrow> bool" where
  "topicParamsBounded tparams \<longleftrightarrow>
     0 \<le> firstMessageDeliveriesCap tparams \<and>
     0 \<le> meshMessageDeliveriesCap tparams \<and>
     0 \<le> firstMessageDeliveriesDecay tparams \<and> firstMessageDeliveriesDecay tparams \<le> 1 \<and>
     0 \<le> meshMessageDeliveriesDecay tparams \<and> meshMessageDeliveriesDecay tparams \<le> 1 \<and>
     0 \<le> meshFailurePenaltyDecay tparams \<and>
     0 \<le> invalidMessageDeliveriesDecay tparams"

definition paramsBounded :: "PeerScoreParams \<Rightarrow> bool" where
  "paramsBounded ps \<longleftrightarrow>
     0 \<le> behaviourPenaltyDecay ps \<and>
     (\<forall>(topic, tparams) \<in> set (topicParams ps). topicParamsBounded tparams)"

text \<open>
  A call of an ingest hook or a run of \<^verbatim>\<open>_refreshScores\<close>, with what the call reads from
  outside: the clock, and for \<open>AddPeer\<close> the IP list the connection manager gives.
\<close>

datatype event =
    AddPeer string "string list"
  | RemovePeer real string
  | Graft real string string
  | Prune string string
  | DeliverMessage real InMessage
  | RejectMessage real InMessage string
  | DuplicateMessage real InMessage
  | AddPenalty string real
  | RefreshScores real

fun step :: "computeScore \<Rightarrow> real \<Rightarrow> event \<Rightarrow> PeerScore \<Rightarrow> error + PeerScore" where
  "step cs tcd (AddPeer pid ipl) s = Inr (addPeer (\<lambda>_. ipl) pid s)"
| "step cs tcd (RemovePeer now pid) s = removePeer cs now pid s"
| "step cs tcd (Graft now pid topic) s = Inr (graft now pid topic s)"
| "step cs tcd (Prune pid topic) s = Inr (prune pid topic s)"
| "step cs tcd (DeliverMessage now message) s = Inr (deliverMessage tcd now message s)"
| "step cs tcd (RejectMessage now message reason) s = Inr (rejectMessage tcd now message reason s)"
| "step cs tcd (DuplicateMessage now message) s = Inr (duplicateMessage tcd now message s)"
| "step cs tcd (AddPenalty pid penalty) s = Inr (addPenalty pid penalty s)"
| "step cs tcd (RefreshScores now) s = Inr (refreshScores now s)"

text \<open>A trace of events; an exception ends it.\<close>

fun run :: "computeScore \<Rightarrow> real \<Rightarrow> event list \<Rightarrow> PeerScore \<Rightarrow> error + PeerScore" where
  "run cs tcd [] s = Inr s"
| "run cs tcd (ev # evs) s =
     (case step cs tcd ev s of
        Inl e \<Rightarrow> Inl e
      | Inr s' \<Rightarrow> run cs tcd evs s')"

text \<open>The penalty of an \<open>AddPenalty\<close> event is not negative.\<close>

fun penaltyNonneg :: "event \<Rightarrow> bool" where
  "penaltyNonneg (AddPenalty pid penalty) = (0 \<le> penalty)"
| "penaltyNonneg _ = True"

text \<open>
  The IP index and the statistics agree: \<open>peerIPs\<close> lists a peer under an IP exactly when
  the peer has statistics whose IP list has the IP, and no bucket of \<open>peerIPs\<close> is empty.
\<close>

definition bucketOf :: "(string \<times> string set) list \<Rightarrow> string \<Rightarrow> string set" where
  "bucketOf idx ip = (case map_of idx ip of None \<Rightarrow> {} | Some bucket \<Rightarrow> bucket)"

definition noEmptyBucket :: "(string \<times> string set) list \<Rightarrow> bool" where
  "noEmptyBucket idx \<longleftrightarrow> (\<forall>ip. map_of idx ip \<noteq> Some {})"

definition ipIndexConsistent :: "PeerScore \<Rightarrow> bool" where
  "ipIndexConsistent s \<longleftrightarrow>
     (\<forall>ip p. p \<in> peersAt s ip \<longleftrightarrow>
        (\<exists>pstats. map_of (peerStats s) p = Some pstats \<and> ip \<in> set (ips pstats))) \<and>
     noEmptyBucket (peerIPs s)"

text \<open>
  Traces of the three operations that maintain the IP index; \<open>addsOnlyUnknown\<close> says that
  along the trace \<open>addPeer\<close> is called for peers without statistics only.
\<close>

datatype ipEvent =
    IpAddPeer string "string list"
  | IpRemovePeer real string
  | IpUpdateIPs "string \<Rightarrow> string list"

fun ipStep :: "computeScore \<Rightarrow> ipEvent \<Rightarrow> PeerScore \<Rightarrow> error + PeerScore" where
  "ipStep cs (IpAddPeer pid ipl) s = Inr (addPeer (\<lambda>_. ipl) pid s)"
| "ipStep cs (IpRemovePeer now pid) s = removePeer cs now pid s"
| "ipStep cs (IpUpdateIPs cm) s = Inr (updateIPs cm s)"

fun ipRun :: "computeScore \<Rightarrow> ipEvent list \<Rightarrow> PeerScore \<Rightarrow> error + PeerScore" where
  "ipRun cs [] s = Inr s"
| "ipRun cs (ev # evs) s =
     (case ipStep cs ev s of
        Inl e \<Rightarrow> Inl e
      | Inr s' \<Rightarrow> ipRun cs evs s')"

fun addsUnknown :: "ipEvent \<Rightarrow> PeerScore \<Rightarrow> bool" where
  "addsUnknown (IpAddPeer pid ipl) s = (map_of (peerStats s) pid = None)"
| "addsUnknown _ s = True"

fun addsOnlyUnknown :: "computeScore \<Rightarrow> ipEvent list \<Rightarrow> PeerScore \<Rightarrow> bool" where
  "addsOnlyUnknown cs [] s = True"
| "addsOnlyUnknown cs (ev # evs) s =
     (addsUnknown ev s \<and>
      (case ipStep cs ev s of
         Inl e \<Rightarrow> True
       | Inr s' \<Rightarrow> addsOnlyUnknown cs evs s'))"

text \<open>
  What a message hook may change. \<open>peerSetOf s mid\<close> is the peer set of the delivery
  record of \<open>mid\<close>, empty when there is no record; \<open>besidesTopics\<close> is a statistics object
  without its per-topic part. \<open>changesAtMost mid bucket s s'\<close>: from \<open>s\<close> to \<open>s'\<close> the
  parameters, the IP index, the id function and the timer are the same; \<open>peerStats\<close> has
  the same keys in the same order, the same object for every peer outside \<open>bucket\<close>, and
  for every peer an object that differs at most in \<open>topics\<close>; every delivery record but
  that of \<open>mid\<close> is the same, and the queue is the same, with \<open>mid\<close> appended when its
  record was created.
\<close>

definition peerSetOf :: "PeerScore \<Rightarrow> string \<Rightarrow> string list" where
  "peerSetOf s mid = (case recordOf s mid of None \<Rightarrow> [] | Some drec \<Rightarrow> peers drec)"

definition besidesTopics :: "PeerStats \<Rightarrow> bool \<times> real \<times> real \<times> string list" where
  "besidesTopics pstats = (connected pstats, expire pstats, behaviourPenalty pstats, ips pstats)"

definition changesAtMost :: "string \<Rightarrow> string list \<Rightarrow> PeerScore \<Rightarrow> PeerScore \<Rightarrow> bool" where
  "changesAtMost mid bucket s s' \<longleftrightarrow>
     params s' = params s \<and> peerIPs s' = peerIPs s \<and> msgId s' = msgId s \<and>
     backgroundInterval s' = backgroundInterval s \<and>
     map fst (peerStats s') = map fst (peerStats s) \<and>
     (\<forall>q. q \<notin> set bucket \<longrightarrow> map_of (peerStats s') q = map_of (peerStats s) q) \<and>
     (\<forall>q. map_option besidesTopics (map_of (peerStats s') q) =
          map_option besidesTopics (map_of (peerStats s) q)) \<and>
     (\<forall>mid'. mid' \<noteq> mid \<longrightarrow> recordOf s' mid' = recordOf s mid') \<and>
     queue (deliveryRecords s') =
       queue (deliveryRecords s) @
       (if recordOf s mid = None \<and> recordOf s' mid \<noteq> None then [mid] else [])"

subsection \<open>Example inputs\<close>

text \<open>
  One scored topic \<open>T\<close> with caps 10, decay factors 1/2, threshold 2, window 10 and
  activation 1000; \<open>decayToZero = 1/10\<close>, \<open>retainScore = 800\<close>. A message's id is its
  \<open>data\<close>. The example score function gives every peer the score 0.
\<close>

definition exTopicParams :: TopicScoreParams where
  "exTopicParams =
     \<lparr>firstMessageDeliveriesDecay = 1/2, firstMessageDeliveriesCap = 10,
      meshMessageDeliveriesDecay = 1/2, meshMessageDeliveriesCap = 10,
      meshMessageDeliveriesThreshold = 2, meshMessageDeliveriesWindow = 10,
      meshMessageDeliveriesActivation = 1000, meshFailurePenaltyDecay = 1/2,
      invalidMessageDeliveriesDecay = 1/2\<rparr>"

definition exParams :: PeerScoreParams where
  "exParams =
     \<lparr>topicParams = [(''T'', exTopicParams)], behaviourPenaltyDecay = 1/2,
      decayInterval = 1000, decayToZero = 1/10, retainScore = 800\<rparr>"

definition exInit :: PeerScore where
  "exInit = constructor exParams data"

definition exMsg :: "string \<Rightarrow> InMessage" where
  "exMsg from = \<lparr>receivedFrom = from, topicIDs = [''T''], data = ''m''\<rparr>"

text \<open>The same message id with a topic list that names \<open>T\<close> once and \<open>U\<close>, not scored, twice.\<close>

definition exMsgRepeated :: "string \<Rightarrow> InMessage" where
  "exMsgRepeated from = \<lparr>receivedFrom = from, topicIDs = [''T'', ''U'', ''U''], data = ''m''\<rparr>"

definition exScore :: computeScore where
  "exScore pid pstats ps idx = 0"

definition exTracer :: IWantTracer where
  "exTracer = \<lparr>getMsgId = data, promises = [(''m'', [(''A'', 3000)]), (''n'', [(''B'', 4000)])]\<rparr>"

text \<open>Peers \<open>A\<close> and \<open>B\<close> are known, with no connection the manager knows of.\<close>

definition exTwoPeers :: PeerScore where
  "exTwoPeers = addPeer (\<lambda>_. []) ''B'' (addPeer (\<lambda>_. []) ''A'' exInit)"

text \<open>The message \<open>m\<close> was delivered first by \<open>A\<close> at time 100: its record is \<open>Valid\<close>.\<close>

definition exValidated :: PeerScore where
  "exValidated = deliverMessage 120000 100 (exMsg ''A'') exTwoPeers"

text \<open>
  \<open>A\<close> forwarded \<open>m\<close> while it was being validated: the record is \<open>Unknown\<close> and has
  \<open>A\<close> in its peer set. Then the message, received first from \<open>B\<close>, was rejected: the
  record is \<open>Invalid\<close>, still with \<open>A\<close> in its peer set.
\<close>

definition exForwarded :: PeerScore where
  "exForwarded = duplicateMessage 120000 2 (exMsg ''A'') exTwoPeers"

definition exRejected :: PeerScore where
  "exRejected = rejectMessage 120000 3 (exMsg ''B'') ''ERR_TOPIC_VALIDATOR_REJECT'' exForwarded"

text \<open>
  The message \<open>m\<close>, received first from \<open>B\<close>, was rejected before anyone else forwarded
  it: the record is \<open>Invalid\<close> with an empty peer set.
\<close>

definition exRejectedFirst :: PeerScore where
  "exRejectedFirst = rejectMessage 120000 3 (exMsg ''B'') ''ERR_TOPIC_VALIDATOR_REJECT'' exTwoPeers"

text \<open>\<open>B\<close> is in the mesh of \<open>T\<close> and \<open>A\<close> delivered \<open>m\<close> first, at time 100.\<close>

definition exMeshValidated :: PeerScore where
  "exMeshValidated = deliverMessage 120000 100 (exMsg ''A'') (graft 0 ''B'' ''T'' exTwoPeers)"

text \<open>
  \<open>A\<close> is in the mesh of \<open>T\<close>, has delivered \<open>m\<close> first (both delivery counters are 1)
  and carries a behaviour penalty of 1.
\<close>

definition exDecaying :: PeerScore where
  "exDecaying =
     addPenalty ''A'' 1
       (deliverMessage 120000 1 (exMsg ''A'') (graft 0 ''A'' ''T'' (addPeer (\<lambda>_. []) ''A'' exInit)))"

text \<open>
  \<open>A\<close>, connected from 1.2.3.4, has been in the mesh of \<open>T\<close> for longer than the
  activation time, has delivered one message there (one short of the threshold) and
  carries a behaviour penalty of 1.
\<close>

definition exRetaining :: PeerScore where
  "exRetaining =
     addPenalty ''A'' 1
       (deliverMessage 120000 1500 (exMsg ''A'')
          (refreshScores 1001 (graft 0 ''A'' ''T'' (addPeer (\<lambda>_. [''1.2.3.4'']) ''A'' exInit))))"

text \<open>A trace with every kind of event; the message \<open>n\<close> names a topic that is not scored.\<close>

definition exTrace :: "event list" where
  "exTrace =
     [AddPeer ''A'' [''1.2.3.4''], AddPeer ''B'' [], Graft 0 ''A'' ''T'',
      DuplicateMessage 1 (exMsg ''B''), DeliverMessage 2 (exMsg ''A''),
      RejectMessage 3 \<lparr>receivedFrom = ''B'', topicIDs = [''T'', ''U''], data = ''n''\<rparr>
        ''ERR_TOPIC_VALIDATOR_REJECT'',
      AddPenalty ''A'' 1, RefreshScores 5, Prune ''A'' ''T'', RemovePeer 6 ''A'',
      RefreshScores 900]"

text \<open>\<open>A\<close> has no statistics on any topic and a behaviour penalty of 2.\<close>

definition exPenalised :: PeerScore where
  "exPenalised = addPenalty ''A'' 1 (addPenalty ''A'' 1 (addPeer (\<lambda>_. []) ''A'' exInit))"

section \<open>Properties\<close>

subsection \<open>The promise tracker\<close>

text \<open>
  C8. \<open>deliverMessage\<close> of the promise tracker removes every promise entry of the message's
  id; \<open>rejectMessage\<close> does the same for any reason other than \<open>ERR_MISSING_SIGNATURE\<close> and
  \<open>ERR_INVALID_SIGNATURE\<close>, and leaves the tracker as it is for those two. The entries of
  the other message ids stay.
\<close>

theorem tracer_deliver_reject_promises:
  "getMsgId tr msg \<notin> fst ` set (promises (tracer_deliverMessage msg tr)) \<and>
   (\<forall>k. k \<noteq> getMsgId tr msg \<longrightarrow>
      map_of (promises (tracer_deliverMessage msg tr)) k = map_of (promises tr) k) \<and>
   (reason \<noteq> ERR_MISSING_SIGNATURE \<and> reason \<noteq> ERR_INVALID_SIGNATURE \<longrightarrow>
      getMsgId tr msg \<notin> fst ` set (promises (tracer_rejectMessage msg reason tr)) \<and>
      (\<forall>k. k \<noteq> getMsgId tr msg \<longrightarrow>
         map_of (promises (tracer_rejectMessage msg reason tr)) k = map_of (promises tr) k)) \<and>
   (reason = ERR_MISSING_SIGNATURE \<or> reason = ERR_INVALID_SIGNATURE \<longrightarrow>
      tracer_rejectMessage msg reason tr = tr)"
  by (auto simp: tracer_deliverMessage_def tracer_rejectMessage_def Let_def delete_notin_dom)

theorem tracer_deliver_reject_promises_witness:
  "promises (tracer_deliverMessage (exMsg ''A'') exTracer) = [(''n'', [(''B'', 4000)])] \<and>
   ''ERR_TOPIC_VALIDATOR_REJECT'' \<noteq> ERR_MISSING_SIGNATURE \<and>
   ''ERR_TOPIC_VALIDATOR_REJECT'' \<noteq> ERR_INVALID_SIGNATURE \<and>
   ''m'' \<notin> fst ` set
      (promises (tracer_rejectMessage (exMsg ''A'') ''ERR_TOPIC_VALIDATOR_REJECT'' exTracer)) \<and>
   map_of (promises (tracer_rejectMessage (exMsg ''A'') ''ERR_TOPIC_VALIDATOR_REJECT'' exTracer))
      ''n'' = Some [(''B'', 4000)] \<and>
   tracer_rejectMessage (exMsg ''A'') ERR_MISSING_SIGNATURE exTracer = exTracer \<and>
   tracer_rejectMessage (exMsg ''A'') ERR_INVALID_SIGNATURE exTracer = exTracer"
proof -
  have id: "getMsgId exTracer (exMsg ''A'') = ''m''"
    by (simp add: exTracer_def exMsg_def)
  have r: "''ERR_TOPIC_VALIDATOR_REJECT'' \<noteq> ERR_MISSING_SIGNATURE"
      "''ERR_TOPIC_VALIDATOR_REJECT'' \<noteq> ERR_INVALID_SIGNATURE"
    by (simp_all add: ERR_MISSING_SIGNATURE_def ERR_INVALID_SIGNATURE_def)
  have d: "promises (tracer_deliverMessage (exMsg ''A'') exTracer) = [(''n'', [(''B'', 4000)])]"
    by (simp add: tracer_deliverMessage_def exTracer_def exMsg_def AList.delete_eq)
  have n: "map_of (promises exTracer) ''n'' = Some [(''B'', 4000)]"
    by (simp add: exTracer_def)
  show ?thesis
    using tracer_deliver_reject_promises [of exTracer "exMsg ''A''" "''ERR_TOPIC_VALIDATOR_REJECT''"]
      tracer_deliver_reject_promises [of exTracer "exMsg ''A''" ERR_MISSING_SIGNATURE]
      tracer_deliver_reject_promises [of exTracer "exMsg ''A''" ERR_INVALID_SIGNATURE]
      id r d n
    by simp
qed

subsection \<open>Stopping the engine\<close>

text \<open>
  C9, as the code has it. After \<open>stop\<close> the ticker is not running. When it was running
  before the call, \<open>peerStats\<close>, \<open>peerIPs\<close> and the delivery records (the map and the queue)
  are empty afterwards; when it was not running, \<open>stop\<close> returns early and changes nothing.
\<close>

theorem stop_clears_running_engine:
  "\<not> backgroundInterval (stop s) \<and>
   (backgroundInterval s \<longrightarrow>
      peerStats (stop s) = [] \<and> peerIPs (stop s) = [] \<and>
      records (deliveryRecords (stop s)) = [] \<and> queue (deliveryRecords (stop s)) = []) \<and>
   (\<not> backgroundInterval s \<longrightarrow> stop s = s)"
  by (simp add: stop_def deliveries_clear_def)

theorem stop_clears_running_engine_witness:
  "backgroundInterval (start (addPeer (\<lambda>_. [''1.2.3.4'']) ''A'' exInit)) \<and>
   peerStats (addPeer (\<lambda>_. [''1.2.3.4'']) ''A'' exInit) \<noteq> [] \<and>
   peerStats (stop (start (addPeer (\<lambda>_. [''1.2.3.4'']) ''A'' exInit))) = [] \<and>
   peerIPs (stop (start (addPeer (\<lambda>_. [''1.2.3.4'']) ''A'' exInit))) = [] \<and>
   \<not> backgroundInterval exInit \<and> stop exInit = exInit"
proof -
  have a: "backgroundInterval (start (addPeer (\<lambda>_. [''1.2.3.4'']) ''A'' exInit))"
    by (simp add: start_def)
  have b: "peerStats (addPeer (\<lambda>_. [''1.2.3.4'']) ''A'' exInit) \<noteq> []"
    by (simp add: addPeer_def Let_def)
  have c: "\<not> backgroundInterval exInit"
    by (simp add: exInit_def constructor_def)
  show ?thesis
    using stop_clears_running_engine [of "start (addPeer (\<lambda>_. [''1.2.3.4'']) ''A'' exInit)"]
      stop_clears_running_engine [of exInit] a b c
    by simp
qed

text \<open>
  The claim as it was stated fails on an engine that was never started: \<open>stop\<close> leaves the
  peer that was added.
\<close>

theorem stop_not_running_counterexample:
  "\<not> backgroundInterval (addPeer (\<lambda>_. []) ''A'' exInit) \<and>
   map fst (peerStats (stop (addPeer (\<lambda>_. []) ''A'' exInit))) = [''A'']"
  by code_simp

subsection \<open>A second delivery of the same message\<close>

text \<open>
  When the record of the message has a terminal status already, all that \<open>deliverMessage\<close>
  does is what \<open>_markFirstMessageDelivery\<close> does for the sender: the record stays, the
  sender's counters are raised once more.
\<close>

lemma ensureRecord_existing:
  "recordOf s mid = Some drec \<Longrightarrow>
   ensureRecord tcd now mid (deliveryRecords s) = (drec, deliveryRecords s)"
  by (simp add: recordOf_def ensureRecord_def)

lemma markFirst_fields:
  "deliveryRecords (markFirstMessageDelivery p m s) = deliveryRecords s"
  "msgId (markFirstMessageDelivery p m s) = msgId s"
  by (simp_all add: markFirstMessageDelivery_def split: option.splits)

lemma deliverMessage_terminal_record:
  assumes "recordOf s (msgId s message) = Some drec" and "status drec \<noteq> Unknown"
  shows "deliverMessage tcd now message s =
         markFirstMessageDelivery (receivedFrom message) message s"
proof -
  let ?s1 = "markFirstMessageDelivery (receivedFrom message) message s"
  have "recordOf ?s1 (msgId ?s1 message) = Some drec"
    using assms(1) by (simp add: recordOf_def markFirst_fields)
  then have "ensureRecord tcd now (msgId ?s1 message) (deliveryRecords ?s1) =
      (drec, deliveryRecords ?s1)"
    by (rule ensureRecord_existing)
  then show ?thesis
    using assms(2) by (simp add: deliverMessage_def Let_def)
qed

text \<open>
  C1. The claim: a \<open>deliverMessage\<close> call for a message whose record already has a terminal
  status changes no counter. In the code \<open>_markFirstMessageDelivery\<close> runs before the status
  is checked. Peer \<open>A\<close>, in the mesh of the scored topic \<open>T\<close>, delivers the message \<open>m\<close>
  at time 1: the record becomes \<open>Valid\<close> and both counters of \<open>A\<close> are 1. A second
  \<open>deliverMessage\<close> of \<open>m\<close> at time 2 leaves the record as it is and raises both counters
  to 2.
\<close>

theorem deliverMessage_terminal_record_counts_again:
  "map_option status
     (recordOf (deliverMessage 120000 1 (exMsg ''A'')
        (graft 0 ''A'' ''T'' (addPeer (\<lambda>_. []) ''A'' exInit))) ''m'') = Some Valid \<and>
   counterOf firstMessageDeliveries
     (deliverMessage 120000 1 (exMsg ''A'')
        (graft 0 ''A'' ''T'' (addPeer (\<lambda>_. []) ''A'' exInit))) ''A'' ''T'' = 1 \<and>
   counterOf meshMessageDeliveries
     (deliverMessage 120000 1 (exMsg ''A'')
        (graft 0 ''A'' ''T'' (addPeer (\<lambda>_. []) ''A'' exInit))) ''A'' ''T'' = 1 \<and>
   recordOf (deliverMessage 120000 2 (exMsg ''A'') (deliverMessage 120000 1 (exMsg ''A'')
        (graft 0 ''A'' ''T'' (addPeer (\<lambda>_. []) ''A'' exInit)))) ''m'' =
     recordOf (deliverMessage 120000 1 (exMsg ''A'')
        (graft 0 ''A'' ''T'' (addPeer (\<lambda>_. []) ''A'' exInit))) ''m'' \<and>
   counterOf firstMessageDeliveries
     (deliverMessage 120000 2 (exMsg ''A'') (deliverMessage 120000 1 (exMsg ''A'')
        (graft 0 ''A'' ''T'' (addPeer (\<lambda>_. []) ''A'' exInit)))) ''A'' ''T'' = 2 \<and>
   counterOf meshMessageDeliveries
     (deliverMessage 120000 2 (exMsg ''A'') (deliverMessage 120000 1 (exMsg ''A'')
        (graft 0 ''A'' ''T'' (addPeer (\<lambda>_. []) ''A'' exInit)))) ''A'' ''T'' = 2"
  by code_simp

subsection \<open>The IP index when a known peer is added again\<close>

text \<open>
  C4. The claim: after any sequence of \<open>AddPeer\<close>, \<open>RemovePeer\<close> and \<open>updateIPs\<close> calls,
  \<open>peerIPs[ip]\<close> contains \<open>p\<close> exactly when the IP list of \<open>p\<close>'s statistics contains \<open>ip\<close>.
  \<open>addPeer\<close> stores a new statistics object over the one a known peer has and reconciles
  the index against the new object's empty IP list. Peer \<open>A\<close> connects from 1.2.3.4, is
  removed with score 0 (so its statistics are retained) and connects again from 5.6.7.8:
  its IP list is then 5.6.7.8 alone, and the index still lists \<open>A\<close> under 1.2.3.4.
\<close>

theorem addPeer_known_peer_stale_ip:
  "(case run exScore 120000
          [AddPeer ''A'' [''1.2.3.4''], RemovePeer 10 ''A'', AddPeer ''A'' [''5.6.7.8'']] exInit of
      Inl e \<Rightarrow> False
    | Inr s \<Rightarrow>
        map_option ips (map_of (peerStats s) ''A'') = Some [''5.6.7.8''] \<and>
        ''A'' \<in> peersAt s ''1.2.3.4'' \<and> ''A'' \<in> peersAt s ''5.6.7.8'')"
  by code_simp

subsection \<open>What the counter updates leave alone\<close>

text \<open>
  The read of \<^verbatim>\<open>this.params.topics[topic]\<close> after \<open>ensureTopicStats\<close> has returned an
  object cannot fail.
\<close>

lemma ensureTopicStats_scored:
  "ensureTopicStats topic pstats ps = Some x \<Longrightarrow> map_of (topicParams ps) topic \<noteq> None"
  by (auto simp: ensureTopicStats_def split: option.splits)

lemma keys_update_known:
  "map_of al k = Some v \<Longrightarrow> map fst (AList.update k w al) = map fst al"
  by (auto simp: update_keys dest: map_of_SomeD intro: rev_image_eqI)

lemma markInvalid_frame:
  "map fst (peerStats (markInvalidMessageDelivery p m s)) = map fst (peerStats s) \<and>
   peerIPs (markInvalidMessageDelivery p m s) = peerIPs s \<and>
   deliveryRecords (markInvalidMessageDelivery p m s) = deliveryRecords s \<and>
   params (markInvalidMessageDelivery p m s) = params s \<and>
   msgId (markInvalidMessageDelivery p m s) = msgId s \<and>
   backgroundInterval (markInvalidMessageDelivery p m s) = backgroundInterval s"
  by (simp add: markInvalidMessageDelivery_def keys_update_known split: option.splits)

lemma markFirst_frame:
  "map fst (peerStats (markFirstMessageDelivery p m s)) = map fst (peerStats s) \<and>
   peerIPs (markFirstMessageDelivery p m s) = peerIPs s \<and>
   deliveryRecords (markFirstMessageDelivery p m s) = deliveryRecords s \<and>
   params (markFirstMessageDelivery p m s) = params s \<and>
   msgId (markFirstMessageDelivery p m s) = msgId s \<and>
   backgroundInterval (markFirstMessageDelivery p m s) = backgroundInterval s"
  by (simp add: markFirstMessageDelivery_def keys_update_known split: option.splits)

lemma markDuplicate_frame:
  "map fst (peerStats (markDuplicateMessageDelivery p m v c s)) = map fst (peerStats s) \<and>
   peerIPs (markDuplicateMessageDelivery p m v c s) = peerIPs s \<and>
   deliveryRecords (markDuplicateMessageDelivery p m v c s) = deliveryRecords s \<and>
   params (markDuplicateMessageDelivery p m v c s) = params s \<and>
   msgId (markDuplicateMessageDelivery p m v c s) = msgId s \<and>
   backgroundInterval (markDuplicateMessageDelivery p m v c s) = backgroundInterval s"
  by (simp add: markDuplicateMessageDelivery_def keys_update_known Let_def split: option.splits)

text \<open>A loop whose body keeps an observation keeps it.\<close>

lemma fold_keeps:
  "(\<And>x st. obs (f x st) = obs st) \<Longrightarrow> obs (fold f xs s) = obs s"
  by (induction xs arbitrary: s) simp_all

lemma markInvalid_unknown: "map_of (peerStats s) p = None \<Longrightarrow> markInvalidMessageDelivery p m s = s"
  by (simp add: markInvalidMessageDelivery_def)

lemma markFirst_unknown: "map_of (peerStats s) p = None \<Longrightarrow> markFirstMessageDelivery p m s = s"
  by (simp add: markFirstMessageDelivery_def)

lemma markDuplicate_unknown:
  "map_of (peerStats s) p = None \<Longrightarrow> markDuplicateMessageDelivery p m v c s = s"
  by (simp add: markDuplicateMessageDelivery_def)

lemma deliverMessage_keys:
  "map fst (peerStats (deliverMessage tcd now m s)) = map fst (peerStats s)"
proof -
  have loop: "map fst (peerStats (fold (\<lambda>p st. if p \<noteq> q then markDuplicateMessageDelivery p m 0 now st else st) xs st0))
      = map fst (peerStats st0)" for q xs st0
    by (rule fold_keeps [where obs = "\<lambda>st. map fst (peerStats st)"]) (simp add: markDuplicate_frame)
  show ?thesis
    by (simp add: deliverMessage_def Let_def loop markFirst_frame split: prod.splits)
qed

lemma deliverMessage_peerIPs:
  "peerIPs (deliverMessage tcd now m s) = peerIPs s"
proof -
  have loop: "peerIPs (fold (\<lambda>p st. if p \<noteq> q then markDuplicateMessageDelivery p m 0 now st else st) xs st0)
      = peerIPs st0" for q xs st0
    by (rule fold_keeps [where obs = peerIPs]) (simp add: markDuplicate_frame)
  show ?thesis
    by (simp add: deliverMessage_def Let_def loop markFirst_frame split: prod.splits)
qed

lemma rejectMessage_keys:
  "map fst (peerStats (rejectMessage tcd now m r s)) = map fst (peerStats s)"
proof -
  have loop: "map fst (peerStats (fold (\<lambda>p st. markInvalidMessageDelivery p m st) xs st0))
      = map fst (peerStats st0)" for xs st0
    by (rule fold_keeps [where obs = "\<lambda>st. map fst (peerStats st)"]) (simp add: markInvalid_frame)
  show ?thesis
    by (simp add: rejectMessage_def Let_def loop markInvalid_frame split: prod.splits)
qed

lemma rejectMessage_peerIPs:
  "peerIPs (rejectMessage tcd now m r s) = peerIPs s"
proof -
  have loop: "peerIPs (fold (\<lambda>p st. markInvalidMessageDelivery p m st) xs st0) = peerIPs st0" for xs st0
    by (rule fold_keeps [where obs = peerIPs]) (simp add: markInvalid_frame)
  show ?thesis
    by (simp add: rejectMessage_def Let_def loop markInvalid_frame split: prod.splits)
qed

lemma duplicateMessage_unknown:
  "map_of (peerStats s) (receivedFrom m) = None \<Longrightarrow>
   peerStats (duplicateMessage tcd now m s) = peerStats s \<and>
   peerIPs (duplicateMessage tcd now m s) = peerIPs s"
  by (simp add: duplicateMessage_def Let_def markInvalid_unknown markDuplicate_unknown
      split: prod.splits DeliveryRecordStatus.splits)

lemma unknown_iff_keys: "map_of al k = None \<longleftrightarrow> k \<notin> set (map fst al)"
  by (simp add: map_of_eq_None_iff)

subsection \<open>Hooks called for an unknown peer\<close>

lemma markInvalidTopic_besidesTopics:
  "besidesTopics (markInvalidTopic ps t p) = besidesTopics p"
  by (simp add: besidesTopics_def markInvalidTopic_def ensureTopicStats_def putTopicStats_def
      split: option.splits)

lemma markDuplicateTopic_besidesTopics:
  "besidesTopics (markDuplicateTopic ps v n t p) = besidesTopics p"
  by (auto simp: besidesTopics_def markDuplicateTopic_def ensureTopicStats_def putTopicStats_def
      Let_def split: option.splits)

lemma markInvalid_other:
  "q \<noteq> p \<Longrightarrow> map_of (peerStats (markInvalidMessageDelivery p m s)) q = map_of (peerStats s) q"
  by (simp add: markInvalidMessageDelivery_def update_conv' split: option.splits)

lemma markDuplicate_other:
  "q \<noteq> p \<Longrightarrow> map_of (peerStats (markDuplicateMessageDelivery p m v c s)) q = map_of (peerStats s) q"
  by (simp add: markDuplicateMessageDelivery_def update_conv' Let_def split: option.splits)

lemma markInvalid_besidesTopics:
  "map_option besidesTopics (map_of (peerStats (markInvalidMessageDelivery p m s)) q) =
   map_option besidesTopics (map_of (peerStats s) q)"
proof -
  have "besidesTopics (fold (markInvalidTopic ps) ts pstats) = besidesTopics pstats" for ps ts pstats
    by (rule fold_keeps) (rule markInvalidTopic_besidesTopics)
  then show ?thesis
    by (simp add: markInvalidMessageDelivery_def update_conv' split: option.splits)
qed

lemma markDuplicate_besidesTopics:
  "map_option besidesTopics (map_of (peerStats (markDuplicateMessageDelivery p m v c s)) q) =
   map_option besidesTopics (map_of (peerStats s) q)"
proof -
  have "besidesTopics (fold (markDuplicateTopic ps v n) ts pstats) = besidesTopics pstats"
    for ps v n ts pstats
    by (rule fold_keeps) (rule markDuplicateTopic_besidesTopics)
  then show ?thesis
    by (simp add: markDuplicateMessageDelivery_def update_conv' Let_def split: option.splits)
qed

lemma changesAtMost_markInvalid:
  assumes "changesAtMost mid bucket s st" and "p \<in> set bucket"
  shows "changesAtMost mid bucket s (markInvalidMessageDelivery p m st)"
  using assms unfolding changesAtMost_def
  apply (simp add: markInvalid_frame markInvalid_besidesTopics recordOf_def)
  apply (metis markInvalid_other)
  done

lemma changesAtMost_markDuplicate:
  assumes "changesAtMost mid bucket s st" and "p \<in> set bucket"
  shows "changesAtMost mid bucket s (markDuplicateMessageDelivery p m v c st)"
  using assms unfolding changesAtMost_def
  apply (simp add: markDuplicate_frame markDuplicate_besidesTopics recordOf_def)
  apply (metis markDuplicate_other)
  done

lemma changesAtMost_fold:
  assumes "changesAtMost mid bucket s st0"
    and "\<And>p st. p \<in> set xs \<Longrightarrow> changesAtMost mid bucket s st \<Longrightarrow> changesAtMost mid bucket s (f p st)"
  shows "changesAtMost mid bucket s (fold f xs st0)"
  using assms by (induction xs arbitrary: st0) simp_all

lemma deliverMessage_unknown_sender:
  assumes "map_of (peerStats s) (receivedFrom m) = None"
  shows "changesAtMost (msgId s m) (peerSetOf s (msgId s m)) s (deliverMessage tcd now m s)"
proof (cases "recordOf s (msgId s m)")
  case None
  then show ?thesis
    using assms
    by (simp add: deliverMessage_def markFirst_unknown ensureRecord_def recordOf_def Let_def
        putRecord_def changesAtMost_def update_conv')
next
  case (Some drec)
  let ?s3 = "s\<lparr>deliveryRecords :=
      putRecord (msgId s m) (drec\<lparr>status := Valid, validated := now\<rparr>) (deliveryRecords s)\<rparr>"
  have start: "changesAtMost (msgId s m) (peers drec) s ?s3"
    using Some by (simp add: changesAtMost_def recordOf_def putRecord_def update_conv')
  have loop: "changesAtMost (msgId s m) (peers drec) s
      (fold (\<lambda>p st. if p \<noteq> receivedFrom m then markDuplicateMessageDelivery p m 0 now st else st)
         (peers drec) ?s3)"
    by (rule changesAtMost_fold [OF start]) (simp add: changesAtMost_markDuplicate)
  show ?thesis
  proof (cases "status drec = Unknown")
    case True
    then show ?thesis
      using assms Some loop
      by (simp add: deliverMessage_def markFirst_unknown ensureRecord_def recordOf_def Let_def
          peerSetOf_def)
  next
    case False
    then show ?thesis
      using assms Some
      by (simp add: deliverMessage_def markFirst_unknown ensureRecord_def recordOf_def Let_def
          changesAtMost_def)
  qed
qed

lemma rejectMessage_unknown_sender:
  assumes "map_of (peerStats s) (receivedFrom m) = None"
  shows "changesAtMost (msgId s m) (peerSetOf s (msgId s m)) s (rejectMessage tcd now m reason s)"
proof (cases "reason = ERR_MISSING_SIGNATURE \<or> reason = ERR_INVALID_SIGNATURE")
  case True
  then show ?thesis
    using assms by (auto simp: rejectMessage_def markInvalid_unknown changesAtMost_def)
next
  case signed: False
  show ?thesis
  proof (cases "recordOf s (msgId s m)")
    case None
    then show ?thesis
      using assms signed
      by (simp add: rejectMessage_def markInvalid_unknown ensureRecord_def recordOf_def Let_def
          putRecord_def changesAtMost_def update_conv')
  next
    case (Some drec)
    let ?s2 = "s\<lparr>deliveryRecords :=
        putRecord (msgId s m) (drec\<lparr>status := Invalid\<rparr>) (deliveryRecords s)\<rparr>"
    have start: "changesAtMost (msgId s m) (peers drec) s ?s2"
      using Some by (simp add: changesAtMost_def recordOf_def putRecord_def update_conv')
    have unknown2: "map_of (peerStats ?s2) (receivedFrom m) = None"
      using assms by simp
    have loop: "changesAtMost (msgId s m) (peers drec) s
        (fold (\<lambda>p st. markInvalidMessageDelivery p m st) (peers drec) ?s2)"
      by (rule changesAtMost_fold [OF start]) (simp add: changesAtMost_markInvalid)
    show ?thesis
    proof (cases "status drec = Unknown")
      case True
      then show ?thesis
        using signed Some loop start markInvalid_unknown [OF unknown2]
        by (simp add: rejectMessage_def ensureRecord_def recordOf_def Let_def
          peerSetOf_def changesAtMost_def putRecord_def update_conv')
    next
      case False
      then show ?thesis
        using assms Some signed
        by (simp add: rejectMessage_def ensureRecord_def recordOf_def Let_def changesAtMost_def)
    qed
  qed
qed

lemma duplicateMessage_unknown_sender:
  assumes "map_of (peerStats s) (receivedFrom m) = None"
  shows "changesAtMost (msgId s m) [] s (duplicateMessage tcd now m s)"
  using assms
  by (simp add: duplicateMessage_def Let_def markInvalid_unknown markDuplicate_unknown
      ensureRecord_def recordOf_def putRecord_def changesAtMost_def update_conv'
      split: option.splits DeliveryRecordStatus.splits)

lemma terminal_record_unknown_sender:
  assumes "map_of (peerStats s) (receivedFrom m) = None"
    and "recordOf s (msgId s m) = Some drec" and "status drec \<noteq> Unknown"
  shows "deliverMessage tcd now m s = s" and "rejectMessage tcd now m reason s = s"
  using assms
  by (simp_all add: deliverMessage_def rejectMessage_def markFirst_unknown markInvalid_unknown
      ensureRecord_def recordOf_def Let_def)

lemma signature_rejection_unknown_sender:
  assumes "map_of (peerStats s) (receivedFrom m) = None"
    and "reason = ERR_MISSING_SIGNATURE \<or> reason = ERR_INVALID_SIGNATURE"
  shows "rejectMessage tcd now m reason s = s"
  using assms by (auto simp: rejectMessage_def markInvalid_unknown)

text \<open>
  C7, as the code has it. For a peer id without statistics: \<open>removePeer\<close>, \<open>graft\<close>,
  \<open>prune\<close> and \<open>addPenalty\<close> return the state they got. For a message received from that
  id: \<open>rejectMessage\<close> with a missing or an invalid signature returns the state it got,
  and so do \<open>deliverMessage\<close> and \<open>rejectMessage\<close> when the delivery record of the message
  is no longer \<open>Unknown\<close>. Otherwise the three message hooks change at most the delivery
  record of the message, created and queued when there was none, and \<open>deliverMessage\<close>
  and \<open>rejectMessage\<close> the topic statistics of the peers in that record's peer set as it
  was before the call, the unknown sender not among them: no statistics entry is created
  or removed, the entry of every peer outside the peer set is what it was, and the entry of
  a peer in it keeps \<open>connected\<close>, \<open>expire\<close>, \<open>behaviourPenalty\<close> and \<open>ips\<close>; the other
  delivery records, the parameters and \<open>peerIPs\<close> are what they were. \<open>duplicateMessage\<close>
  changes no statistics at all.
\<close>

theorem unknown_peer_hooks:
  assumes "map_of (peerStats s) pid = None" and "receivedFrom message = pid"
  shows "removePeer cs now pid s = Inr s \<and>
         graft now pid topic s = s \<and>
         prune pid topic s = s \<and>
         addPenalty pid penalty s = s \<and>
         peerStats (duplicateMessage tcd now message s) = peerStats s \<and>
         peerIPs (duplicateMessage tcd now message s) = peerIPs s \<and>
         map fst (peerStats (deliverMessage tcd now message s)) = map fst (peerStats s) \<and>
         map_of (peerStats (deliverMessage tcd now message s)) pid = None \<and>
         peerIPs (deliverMessage tcd now message s) = peerIPs s \<and>
         map fst (peerStats (rejectMessage tcd now message reason s)) = map fst (peerStats s) \<and>
         map_of (peerStats (rejectMessage tcd now message reason s)) pid = None \<and>
         peerIPs (rejectMessage tcd now message reason s) = peerIPs s \<and>
         (reason = ERR_MISSING_SIGNATURE \<or> reason = ERR_INVALID_SIGNATURE \<longrightarrow>
            rejectMessage tcd now message reason s = s) \<and>
         (\<forall>drec. recordOf s (msgId s message) = Some drec \<longrightarrow> status drec \<noteq> Unknown \<longrightarrow>
            deliverMessage tcd now message s = s \<and>
            rejectMessage tcd now message reason s = s) \<and>
         changesAtMost (msgId s message) (peerSetOf s (msgId s message)) s
           (deliverMessage tcd now message s) \<and>
         changesAtMost (msgId s message) (peerSetOf s (msgId s message)) s
           (rejectMessage tcd now message reason s) \<and>
         changesAtMost (msgId s message) [] s (duplicateMessage tcd now message s)"
proof -
  have unknown: "map_of (peerStats s) (receivedFrom message) = None"
    using assms by simp
  have hooks: "removePeer cs now pid s = Inr s" "graft now pid topic s = s"
      "prune pid topic s = s" "addPenalty pid penalty s = s"
    using assms(1) by (simp_all add: removePeer_def graft_def prune_def addPenalty_def)
  have dup: "peerStats (duplicateMessage tcd now message s) = peerStats s"
      "peerIPs (duplicateMessage tcd now message s) = peerIPs s"
    using duplicateMessage_unknown [of s message tcd now] assms by simp_all
  have nokey: "pid \<notin> set (map fst (peerStats s))"
    using assms(1) by (simp add: unknown_iff_keys)
  have del: "map_of (peerStats (deliverMessage tcd now message s)) pid = None"
    unfolding unknown_iff_keys deliverMessage_keys by (rule nokey)
  have rej: "map_of (peerStats (rejectMessage tcd now message reason s)) pid = None"
    unfolding unknown_iff_keys rejectMessage_keys by (rule nokey)
  have signature: "reason = ERR_MISSING_SIGNATURE \<or> reason = ERR_INVALID_SIGNATURE \<longrightarrow>
      rejectMessage tcd now message reason s = s"
    using signature_rejection_unknown_sender [OF unknown] by blast
  have terminal: "\<forall>drec. recordOf s (msgId s message) = Some drec \<longrightarrow> status drec \<noteq> Unknown \<longrightarrow>
      deliverMessage tcd now message s = s \<and> rejectMessage tcd now message reason s = s"
    using terminal_record_unknown_sender [OF unknown] by blast
  show ?thesis
    using hooks dup del rej signature terminal
      deliverMessage_unknown_sender [OF unknown, of tcd now]
      rejectMessage_unknown_sender [OF unknown, of tcd now reason]
      duplicateMessage_unknown_sender [OF unknown, of tcd now]
    by (simp add: deliverMessage_keys deliverMessage_peerIPs rejectMessage_keys rejectMessage_peerIPs)
qed

theorem unknown_peer_hooks_witness:
  "map_of (peerStats exForwarded) ''Z'' = None \<and>
   receivedFrom (exMsg ''Z'') = ''Z'' \<and>
   removePeer exScore 5 ''Z'' exForwarded = Inr exForwarded \<and>
   graft 5 ''Z'' ''T'' exForwarded = exForwarded \<and>
   prune ''Z'' ''T'' exForwarded = exForwarded \<and>
   addPenalty ''Z'' 1 exForwarded = exForwarded \<and>
   peerStats (duplicateMessage 120000 5 (exMsg ''Z'') exForwarded) = peerStats exForwarded \<and>
   map fst (peerStats (deliverMessage 120000 5 (exMsg ''Z'') exForwarded)) = [''A'', ''B''] \<and>
   map_of (peerStats (deliverMessage 120000 5 (exMsg ''Z'') exForwarded)) ''Z'' = None \<and>
   map fst (peerStats (rejectMessage 120000 5 (exMsg ''Z'') ''ERR_TOPIC_VALIDATOR_REJECT''
      exForwarded)) = [''A'', ''B''] \<and>
   peerIPs (rejectMessage 120000 5 (exMsg ''Z'') ''ERR_TOPIC_VALIDATOR_REJECT'' exForwarded) =
     peerIPs exForwarded \<and>
   rejectMessage 120000 5 (exMsg ''Z'') ERR_INVALID_SIGNATURE exForwarded = exForwarded \<and>
   map_of (peerStats exRejected) ''Z'' = None \<and>
   map_option status (recordOf exRejected (msgId exRejected (exMsg ''Z''))) = Some Invalid \<and>
   deliverMessage 120000 5 (exMsg ''Z'') exRejected = exRejected \<and>
   rejectMessage 120000 5 (exMsg ''Z'') ''ERR_TOPIC_VALIDATOR_REJECT'' exRejected = exRejected \<and>
   msgId exForwarded (exMsg ''Z'') = ''m'' \<and>
   map_option status (recordOf exForwarded ''m'') = Some Unknown \<and>
   peerSetOf exForwarded ''m'' = [''A''] \<and>
   map_of (peerStats (deliverMessage 120000 5 (exMsg ''Z'') exForwarded)) ''B'' =
     map_of (peerStats exForwarded) ''B'' \<and>
   map_of (peerStats (rejectMessage 120000 5 (exMsg ''Z'') ''ERR_TOPIC_VALIDATOR_REJECT''
      exForwarded)) ''B'' = map_of (peerStats exForwarded) ''B'' \<and>
   map_option besidesTopics (map_of (peerStats (rejectMessage 120000 5 (exMsg ''Z'')
      ''ERR_TOPIC_VALIDATOR_REJECT'' exForwarded)) ''A'') =
     map_option besidesTopics (map_of (peerStats exForwarded) ''A'') \<and>
   counterOf invalidMessageDeliveries exForwarded ''A'' ''T'' = 0 \<and>
   counterOf invalidMessageDeliveries (rejectMessage 120000 5 (exMsg ''Z'')
      ''ERR_TOPIC_VALIDATOR_REJECT'' exForwarded) ''A'' ''T'' = 1 \<and>
   recordOf (deliverMessage 120000 5 (exMsg ''Z'') exForwarded) ''n'' = recordOf exForwarded ''n'' \<and>
   recordOf (duplicateMessage 120000 5 (exMsg ''Z'') exForwarded) ''n'' = recordOf exForwarded ''n''"
proof -
  have known: "map_of (peerStats exForwarded) ''Z'' = None"
    by code_simp
  have known2: "map_of (peerStats exRejected) ''Z'' = None"
    by code_simp
  have sender: "receivedFrom (exMsg ''Z'') = ''Z''"
    by (simp add: exMsg_def)
  have keys: "map fst (peerStats exForwarded) = [''A'', ''B'']"
    by code_simp
  have mid: "msgId exForwarded (exMsg ''Z'') = ''m''" "msgId exRejected (exMsg ''Z'') = ''m''"
    by code_simp+
  have before: "recordOf exForwarded ''m'' =
      Some \<lparr>status = Unknown, firstSeen = 2, validated = 0, peers = [''A''], expireAt = 120002\<rparr>"
    by code_simp
  have bucket: "peerSetOf exForwarded ''m'' = [''A'']"
    by (simp add: peerSetOf_def before)
  have rejected: "recordOf exRejected ''m'' =
      Some \<lparr>status = Invalid, firstSeen = 2, validated = 0, peers = [''A''], expireAt = 120002\<rparr>"
    by code_simp
  have counters: "counterOf invalidMessageDeliveries exForwarded ''A'' ''T'' = 0"
      "counterOf invalidMessageDeliveries (rejectMessage 120000 5 (exMsg ''Z'')
         ''ERR_TOPIC_VALIDATOR_REJECT'' exForwarded) ''A'' ''T'' = 1"
    by code_simp+
  note main = unknown_peer_hooks [OF known sender, where cs = exScore and now = 5
        and topic = "''T''" and penalty = 1 and tcd = 120000
        and reason = "''ERR_TOPIC_VALIDATOR_REJECT''"]
  note unsigned = unknown_peer_hooks [OF known sender, where cs = exScore and now = 5
        and topic = "''T''" and penalty = 1 and tcd = 120000
        and reason = ERR_INVALID_SIGNATURE]
  note settled = unknown_peer_hooks [OF known2 sender, where cs = exScore and now = 5
        and topic = "''T''" and penalty = 1 and tcd = 120000
        and reason = "''ERR_TOPIC_VALIDATOR_REJECT''"]
  have signature: "rejectMessage 120000 5 (exMsg ''Z'') ERR_INVALID_SIGNATURE exForwarded = exForwarded"
    using unsigned by simp
  have terminal: "deliverMessage 120000 5 (exMsg ''Z'') exRejected = exRejected"
      "rejectMessage 120000 5 (exMsg ''Z'') ''ERR_TOPIC_VALIDATOR_REJECT'' exRejected = exRejected"
    using settled by (simp_all add: mid rejected)
  have frames: "changesAtMost ''m'' [''A''] exForwarded (deliverMessage 120000 5 (exMsg ''Z'') exForwarded)"
      "changesAtMost ''m'' [''A''] exForwarded
         (rejectMessage 120000 5 (exMsg ''Z'') ''ERR_TOPIC_VALIDATOR_REJECT'' exForwarded)"
      "changesAtMost ''m'' [] exForwarded (duplicateMessage 120000 5 (exMsg ''Z'') exForwarded)"
    using main by (simp_all add: mid bucket)
  have others: "map_of (peerStats (deliverMessage 120000 5 (exMsg ''Z'') exForwarded)) ''B'' =
        map_of (peerStats exForwarded) ''B''"
      "map_of (peerStats (rejectMessage 120000 5 (exMsg ''Z'') ''ERR_TOPIC_VALIDATOR_REJECT''
        exForwarded)) ''B'' = map_of (peerStats exForwarded) ''B''"
      "map_option besidesTopics (map_of (peerStats (rejectMessage 120000 5 (exMsg ''Z'')
        ''ERR_TOPIC_VALIDATOR_REJECT'' exForwarded)) ''A'') =
       map_option besidesTopics (map_of (peerStats exForwarded) ''A'')"
      "recordOf (deliverMessage 120000 5 (exMsg ''Z'') exForwarded) ''n'' = recordOf exForwarded ''n''"
      "recordOf (duplicateMessage 120000 5 (exMsg ''Z'') exForwarded) ''n'' = recordOf exForwarded ''n''"
    using frames by (simp_all add: changesAtMost_def)
  show ?thesis
    using main known known2 sender keys mid before rejected bucket counters signature terminal others
    by simp
qed

text \<open>
  C7 as stated: \<open>Z\<close> has no statistics, yet its \<open>DuplicateMessage\<close> creates the delivery
  record of \<open>m\<close> and enters \<open>Z\<close> in the record's peer set.
\<close>

theorem unknown_peer_duplicate_counterexample:
  "map_of (peerStats exInit) ''Z'' = None \<and>
   recordOf exInit ''m'' = None \<and>
   map_option peers (recordOf (duplicateMessage 120000 5 (exMsg ''Z'') exInit) ''m'') =
     Some [''Z'']"
  by code_simp

subsection \<open>Duplicates of an invalid message\<close>

lemma counterOf_known:
  "map_of (peerStats s) pid = Some pstats \<Longrightarrow>
   counterOf f s pid topic = (case map_of (topics pstats) topic of None \<Rightarrow> 0 | Some tstats \<Rightarrow> f tstats)"
  by (simp add: counterOf_def topicStatsOf_def)

lemma markInvalidTopic_counter:
  "(case map_of (topics (markInvalidTopic ps topic pstats)) t of
      None \<Rightarrow> 0 | Some tstats \<Rightarrow> invalidMessageDeliveries tstats) =
   (case map_of (topics pstats) t of None \<Rightarrow> 0 | Some tstats \<Rightarrow> invalidMessageDeliveries tstats) +
   (if topic = t \<and> map_of (topicParams ps) t \<noteq> None then 1 else 0)"
  by (auto simp: markInvalidTopic_def ensureTopicStats_def putTopicStats_def update_conv'
      createTopicStats_def split: option.splits)

lemma fold_markInvalidTopic_counter:
  "(case map_of (topics (fold (markInvalidTopic ps) tps pstats)) t of
      None \<Rightarrow> 0 | Some tstats \<Rightarrow> invalidMessageDeliveries tstats) =
   (case map_of (topics pstats) t of None \<Rightarrow> 0 | Some tstats \<Rightarrow> invalidMessageDeliveries tstats) +
   (if map_of (topicParams ps) t \<noteq> None then real (count_list tps t) else 0)"
proof (induction tps arbitrary: pstats)
  case Nil
  then show ?case by simp
next
  case (Cons topic tps)
  show ?case
    using Cons.IH [of "markInvalidTopic ps topic pstats"] markInvalidTopic_counter [of ps topic pstats t]
    by (simp del: One_nat_def)
qed

lemma markInvalid_counter:
  assumes "map_of (peerStats s) pid = Some pstats"
    and "map_of (topicParams (params s)) topic \<noteq> None"
  shows "counterOf invalidMessageDeliveries (markInvalidMessageDelivery pid message s) pid topic =
         counterOf invalidMessageDeliveries s pid topic + real (count_list (topicIDs message) topic)"
proof -
  have after: "map_of (peerStats (markInvalidMessageDelivery pid message s)) pid =
      Some (fold (markInvalidTopic (params s)) (topicIDs message) pstats)"
    using assms(1) by (simp add: markInvalidMessageDelivery_def update_conv')
  show ?thesis
    using fold_markInvalidTopic_counter [of "params s" "topicIDs message" pstats topic] assms(2)
    by (simp add: counterOf_known [OF after] counterOf_known [OF assms(1)])
qed

lemma duplicateMessage_invalid:
  assumes "recordOf s (msgId s message) = Some drec" and "status drec = Invalid"
    and "receivedFrom message \<notin> set (peers drec)"
  shows "duplicateMessage tcd now message s =
         markInvalidMessageDelivery (receivedFrom message) message s"
  using assms by (simp add: duplicateMessage_def ensureRecord_existing Let_def)

lemma duplicateMessage_seen_peer:
  assumes "recordOf s (msgId s message) = Some drec"
    and "receivedFrom message \<in> set (peers drec)"
  shows "duplicateMessage tcd now message s = s"
  using assms by (simp add: duplicateMessage_def ensureRecord_existing Let_def)

lemma markInvalid_known:
  "map_of (peerStats s) pid = Some pstats \<Longrightarrow>
   \<exists>pstats'. map_of (peerStats (markInvalidMessageDelivery q message s)) pid = Some pstats'"
  by (cases "map_of (peerStats s) q") (auto simp: markInvalidMessageDelivery_def update_conv')

text \<open>
  C10, as the code has it. The peer is known, the message's record is \<open>Invalid\<close> and the
  peer is not in the record's peer set. Then every \<open>duplicateMessage\<close> call from the peer
  adds, on every scored topic, one to \<open>invalidMessageDeliveries\<close> for each time the topic
  stands in \<open>topicIDs\<close> (one when it is listed once), and leaves the record as it is: after
  the calls at the times \<open>nows\<close> the counter has grown by the number of calls times the
  number of occurrences.
\<close>

theorem invalid_duplicates_each_penalised:
  assumes "map_of (peerStats s) pid = Some pstats"
    and "receivedFrom message = pid"
    and "recordOf s (msgId s message) = Some drec"
    and "status drec = Invalid"
    and "pid \<notin> set (peers drec)"
    and "map_of (topicParams (params s)) topic = Some tparams"
  shows "counterOf invalidMessageDeliveries
           (fold (\<lambda>now. duplicateMessage tcd now message) nows s) pid topic =
         counterOf invalidMessageDeliveries s pid topic +
           real (length nows) * real (count_list (topicIDs message) topic) \<and>
         recordOf (fold (\<lambda>now. duplicateMessage tcd now message) nows s) (msgId s message) =
           Some drec"
  using assms(1,3,6)
proof (induction nows arbitrary: s pstats)
  case Nil
  then show ?case by simp
next
  case (Cons now nows)
  let ?s1 = "markInvalidMessageDelivery pid message s"
  have one: "duplicateMessage tcd now message s = ?s1"
    using duplicateMessage_invalid [OF Cons.prems(2) assms(4)] assms(2,5) by simp
  obtain pstats1 where known1: "map_of (peerStats ?s1) pid = Some pstats1"
    using markInvalid_known [OF Cons.prems(1)] by blast
  have frame: "msgId ?s1 = msgId s" "params ?s1 = params s" "deliveryRecords ?s1 = deliveryRecords s"
    using markInvalid_frame [of pid message s] by simp_all
  have rec1: "recordOf ?s1 (msgId ?s1 message) = Some drec"
    using Cons.prems(2) by (simp add: recordOf_def frame)
  have scored1: "map_of (topicParams (params ?s1)) topic = Some tparams"
    using Cons.prems(3) by (simp add: frame)
  have step: "counterOf invalidMessageDeliveries ?s1 pid topic =
      counterOf invalidMessageDeliveries s pid topic + real (count_list (topicIDs message) topic)"
    using markInvalid_counter [OF Cons.prems(1), of topic message] Cons.prems(3) by simp
  show ?case
    using Cons.IH [OF known1 rec1 scored1] step
    by (simp add: one frame algebra_simps)
qed

theorem invalid_duplicates_each_penalised_witness:
  "map_of (peerStats exRejectedFirst) ''A'' = Some (createPeerStats True) \<and>
   receivedFrom (exMsg ''A'') = ''A'' \<and>
   recordOf exRejectedFirst (msgId exRejectedFirst (exMsg ''A'')) =
     Some \<lparr>status = Invalid, firstSeen = 3, validated = 0, peers = [], expireAt = 120003\<rparr> \<and>
   map_of (topicParams (params exRejectedFirst)) ''T'' = Some exTopicParams \<and>
   counterOf invalidMessageDeliveries exRejectedFirst ''A'' ''T'' = 0 \<and>
   counterOf invalidMessageDeliveries
     (fold (\<lambda>now. duplicateMessage 120000 now (exMsg ''A'')) [5, 6, 7] exRejectedFirst)
     ''A'' ''T'' = 3"
proof -
  have known: "map_of (peerStats exRejectedFirst) ''A'' = Some (createPeerStats True)"
    by code_simp
  have sender: "receivedFrom (exMsg ''A'') = ''A''"
    by (simp add: exMsg_def)
  have rec: "recordOf exRejectedFirst (msgId exRejectedFirst (exMsg ''A'')) =
      Some \<lparr>status = Invalid, firstSeen = 3, validated = 0, peers = [], expireAt = 120003\<rparr>"
    by code_simp
  have scored: "map_of (topicParams (params exRejectedFirst)) ''T'' = Some exTopicParams"
    by code_simp
  have before: "counterOf invalidMessageDeliveries exRejectedFirst ''A'' ''T'' = 0"
    by code_simp
  have listed: "count_list (topicIDs (exMsg ''A'')) ''T'' = 1"
    by code_simp
  show ?thesis
    using invalid_duplicates_each_penalised [OF known sender rec _ _ scored,
        where tcd = 120000 and nows = "[5, 6, 7]"]
      known sender rec scored before listed
    by simp
qed

text \<open>
  C10 as stated: \<open>A\<close> is known and the record of \<open>m\<close> is \<open>Invalid\<close>, but \<open>A\<close> is in the
  record's peer set (it forwarded \<open>m\<close> before the rejection, which penalised it once).
  Its further \<open>DuplicateMessage\<close> is dropped: \<open>invalidMessageDeliveries\<close> stays 1.
\<close>

theorem invalid_duplicate_seen_peer_counterexample:
  "map_option status (recordOf exRejected ''m'') = Some Invalid \<and>
   map_option peers (recordOf exRejected ''m'') = Some [''A''] \<and>
   map_of (peerStats exRejected) ''A'' \<noteq> None \<and>
   counterOf invalidMessageDeliveries exRejected ''A'' ''T'' = 1 \<and>
   counterOf invalidMessageDeliveries
     (duplicateMessage 120000 5 (exMsg ''A'') exRejected) ''A'' ''T'' = 1"
  by code_simp

subsection \<open>The duplicate window\<close>

lemma markDuplicateTopic_other:
  "t \<noteq> topic \<Longrightarrow>
   map_of (topics (markDuplicateTopic ps v now topic pstats)) t = map_of (topics pstats) t"
  by (auto simp: markDuplicateTopic_def ensureTopicStats_def putTopicStats_def update_conv' Let_def
      split: option.splits)

lemma markDuplicateTopic_same:
  assumes "tstats = (case map_of (topics pstats) t of None \<Rightarrow> createTopicStats | Some x \<Rightarrow> x)"
    and "map_of (topicParams ps) t = Some tparams"
  shows "map_of (topics (markDuplicateTopic ps v now t pstats)) t =
         Some (if \<not> inMesh tstats \<or> (v \<noteq> 0 \<and> now > v + meshMessageDeliveriesWindow tparams)
               then tstats
               else tstats\<lparr>meshMessageDeliveries :=
                      min (meshMessageDeliveries tstats + 1) (meshMessageDeliveriesCap tparams)\<rparr>)"
  using assms
  by (auto simp: markDuplicateTopic_def ensureTopicStats_def putTopicStats_def update_conv' Let_def
      min_def split: option.splits)

lemma fold_markDuplicateTopic_other:
  "t \<notin> set tps \<Longrightarrow>
   map_of (topics (fold (markDuplicateTopic ps v now) tps pstats)) t = map_of (topics pstats) t"
  by (induction tps arbitrary: pstats) (simp_all add: markDuplicateTopic_other)

lemma listed_once_split:
  assumes "count_list tps t = 1"
  shows "\<exists>xs ys. tps = xs @ t # ys \<and> t \<notin> set xs \<and> t \<notin> set ys"
proof -
  have "t \<in> set tps"
    using assms count_list_0_iff [of tps t] by auto
  then obtain xs ys where split: "tps = xs @ t # ys" and first: "t \<notin> set xs"
    by (auto dest: split_list_first)
  have "count_list ys t = 0"
    using assms first by (simp add: split)
  then have "t \<notin> set ys"
    by (simp add: count_list_0_iff)
  then show ?thesis
    using split first by blast
qed

lemma fold_markDuplicateTopic_once:
  assumes "count_list tps t = 1"
    and "tstats = (case map_of (topics pstats) t of None \<Rightarrow> createTopicStats | Some x \<Rightarrow> x)"
    and "map_of (topicParams ps) t = Some tparams"
  shows "map_of (topics (fold (markDuplicateTopic ps v now) tps pstats)) t =
         Some (if \<not> inMesh tstats \<or> (v \<noteq> 0 \<and> now > v + meshMessageDeliveriesWindow tparams)
               then tstats
               else tstats\<lparr>meshMessageDeliveries :=
                      min (meshMessageDeliveries tstats + 1) (meshMessageDeliveriesCap tparams)\<rparr>)"
proof -
  obtain xs ys where split: "tps = xs @ t # ys" and out: "t \<notin> set xs" "t \<notin> set ys"
    using listed_once_split [OF assms(1)] by blast
  let ?p1 = "fold (markDuplicateTopic ps v now) xs pstats"
  have before: "tstats = (case map_of (topics ?p1) t of None \<Rightarrow> createTopicStats | Some x \<Rightarrow> x)"
    using out(1) assms(2) by (simp add: fold_markDuplicateTopic_other)
  have unfolded: "fold (markDuplicateTopic ps v now) tps pstats =
      fold (markDuplicateTopic ps v now) ys (markDuplicateTopic ps v now t ?p1)"
    by (simp add: split)
  show ?thesis
    using markDuplicateTopic_same [OF before assms(3), of v now]
    by (simp add: unfolded fold_markDuplicateTopic_other [OF out(2)])
qed

text \<open>
  C3, as the code has it. The message's record is \<open>Valid\<close>, validated at \<open>t0\<close> (not 0,
  the value the code reads as "no validation time"); the peer is known, is not in the
  record's peer set; the topic is scored and \<open>topicIDs\<close> lists it once; \<open>tstats\<close> is the
  peer's statistics object on the topic, the one of \<open>createTopicStats\<close> when there is none
  yet. Then a \<open>duplicateMessage\<close> call from the peer at time \<open>now\<close> raises its
  \<open>meshMessageDeliveries\<close> on the topic by one, up to the cap, when the peer is in the mesh
  of the topic and \<open>now \<le> t0 + meshMessageDeliveriesWindow\<close>, and leaves it as it is
  otherwise.
\<close>

theorem duplicate_within_window_credits_mesh_peer:
  assumes "map_of (peerStats s) pid = Some pstats"
    and "receivedFrom message = pid"
    and "recordOf s (msgId s message) = Some drec"
    and "status drec = Valid"
    and "validated drec = t0"
    and "t0 \<noteq> 0"
    and "pid \<notin> set (peers drec)"
    and "count_list (topicIDs message) topic = 1"
    and "map_of (topicParams (params s)) topic = Some tparams"
    and "tstats = (case map_of (topics pstats) topic of
                     None \<Rightarrow> createTopicStats | Some x \<Rightarrow> x)"
  shows "counterOf meshMessageDeliveries (duplicateMessage tcd now message s) pid topic =
         (if inMesh tstats \<and> now \<le> t0 + meshMessageDeliveriesWindow tparams
          then min (meshMessageDeliveries tstats + 1) (meshMessageDeliveriesCap tparams)
          else meshMessageDeliveries tstats)"
proof -
  let ?s1 = "s\<lparr>deliveryRecords :=
      putRecord (msgId s message) (drec\<lparr>peers := peers drec @ [pid]\<rparr>) (deliveryRecords s)\<rparr>"
  have one: "duplicateMessage tcd now message s =
      markDuplicateMessageDelivery pid message t0 now ?s1"
    using assms(2,3,4,5,7) by (simp add: duplicateMessage_def ensureRecord_existing Let_def)
  have after: "map_of (peerStats (markDuplicateMessageDelivery pid message t0 now ?s1)) pid =
      Some (fold (markDuplicateTopic (params s) t0 now) (topicIDs message) pstats)"
    using assms(1,6) by (simp add: markDuplicateMessageDelivery_def update_conv')
  show ?thesis
    using fold_markDuplicateTopic_once [OF assms(8,10,9), of t0 now] assms(6)
    by (auto simp: one counterOf_known [OF after] not_less)
qed

theorem duplicate_within_window_credits_mesh_peer_witness:
  "map_of (peerStats exMeshValidated) ''B'' =
     Some ((createPeerStats True)\<lparr>topics := [(''T'', createTopicStats\<lparr>inMesh := True\<rparr>)]\<rparr>) \<and>
   receivedFrom (exMsgRepeated ''B'') = ''B'' \<and>
   recordOf exMeshValidated (msgId exMeshValidated (exMsgRepeated ''B'')) =
     Some \<lparr>status = Valid, firstSeen = 100, validated = 100, peers = [], expireAt = 120100\<rparr> \<and>
   topicIDs (exMsgRepeated ''B'') = [''T'', ''U'', ''U''] \<and>
   count_list (topicIDs (exMsgRepeated ''B'')) ''T'' = 1 \<and>
   map_of (topicParams (params exMeshValidated)) ''T'' = Some exTopicParams \<and>
   meshMessageDeliveriesWindow exTopicParams = 10 \<and>
   counterOf meshMessageDeliveries
     (duplicateMessage 120000 110 (exMsgRepeated ''B'') exMeshValidated) ''B'' ''T'' = 1 \<and>
   counterOf meshMessageDeliveries
     (duplicateMessage 120000 111 (exMsgRepeated ''B'') exMeshValidated) ''B'' ''T'' = 0 \<and>
   map_of (peerStats exValidated) ''B'' = Some (createPeerStats True) \<and>
   counterOf meshMessageDeliveries
     (duplicateMessage 120000 105 (exMsg ''B'') exValidated) ''B'' ''T'' = 0"
proof -
  let ?tstats = "createTopicStats\<lparr>inMesh := True\<rparr>"
  let ?pstats = "(createPeerStats True)\<lparr>topics := [(''T'', ?tstats)]\<rparr>"
  have known: "map_of (peerStats exMeshValidated) ''B'' = Some ?pstats"
    by code_simp
  have sender: "receivedFrom (exMsgRepeated ''B'') = ''B''"
    by (simp add: exMsgRepeated_def)
  have rec: "recordOf exMeshValidated (msgId exMeshValidated (exMsgRepeated ''B'')) =
      Some \<lparr>status = Valid, firstSeen = 100, validated = 100, peers = [], expireAt = 120100\<rparr>"
    by code_simp
  have listed: "topicIDs (exMsgRepeated ''B'') = [''T'', ''U'', ''U'']"
    by (simp add: exMsgRepeated_def)
  have once: "count_list (topicIDs (exMsgRepeated ''B'')) ''T'' = 1"
    by (simp add: exMsgRepeated_def)
  have scored: "map_of (topicParams (params exMeshValidated)) ''T'' = Some exTopicParams"
    by code_simp
  have window: "meshMessageDeliveriesWindow exTopicParams = 10"
      "meshMessageDeliveriesCap exTopicParams = 10"
    by (simp_all add: exTopicParams_def)
  have stats: "?tstats = (case map_of (topics ?pstats) ''T'' of
      None \<Rightarrow> createTopicStats | Some x \<Rightarrow> x)"
    by simp
  have mesh: "inMesh ?tstats" "meshMessageDeliveries ?tstats = 0"
    by (simp_all add: createTopicStats_def)
  have known2: "map_of (peerStats exValidated) ''B'' = Some (createPeerStats True)"
    by code_simp
  have sender2: "receivedFrom (exMsg ''B'') = ''B''"
    by (simp add: exMsg_def)
  have rec2: "recordOf exValidated (msgId exValidated (exMsg ''B'')) =
      Some \<lparr>status = Valid, firstSeen = 100, validated = 100, peers = [], expireAt = 120100\<rparr>"
    by code_simp
  have once2: "count_list (topicIDs (exMsg ''B'')) ''T'' = 1"
    by (simp add: exMsg_def)
  have scored2: "map_of (topicParams (params exValidated)) ''T'' = Some exTopicParams"
    by code_simp
  have stats2: "createTopicStats = (case map_of (topics (createPeerStats True)) ''T'' of
      None \<Rightarrow> createTopicStats | Some x \<Rightarrow> x)"
    by (simp add: createPeerStats_def)
  have out: "\<not> inMesh createTopicStats" "meshMessageDeliveries createTopicStats = 0"
    by (simp_all add: createTopicStats_def)
  show ?thesis
    using duplicate_within_window_credits_mesh_peer [OF known sender rec _ _ _ _ once scored stats,
        where ?t0.0 = 100 and tcd = 120000 and now = 110]
      duplicate_within_window_credits_mesh_peer [OF known sender rec _ _ _ _ once scored stats,
        where ?t0.0 = 100 and tcd = 120000 and now = 111]
      duplicate_within_window_credits_mesh_peer [OF known2 sender2 rec2 _ _ _ _ once2 scored2 stats2,
        where ?t0.0 = 100 and tcd = 120000 and now = 105]
      known sender rec listed once scored window mesh known2 out
    by simp
qed

text \<open>
  C3 as stated: \<open>B\<close> is known but not in the mesh of \<open>T\<close>. The record of \<open>m\<close> is \<open>Valid\<close>
  since time 100 and does not have \<open>B\<close> among its peers; the duplicate from \<open>B\<close> arrives
  at 105, inside the window of 10, and \<open>B\<close>'s \<open>meshMessageDeliveries\<close> stays 0.
\<close>

theorem duplicate_window_not_in_mesh_counterexample:
  "map_option status (recordOf exValidated ''m'') = Some Valid \<and>
   map_option validated (recordOf exValidated ''m'') = Some 100 \<and>
   map_option peers (recordOf exValidated ''m'') = Some [] \<and>
   map_of (peerStats exValidated) ''B'' \<noteq> None \<and>
   (105 :: real) \<le> 100 + meshMessageDeliveriesWindow exTopicParams \<and>
   counterOf meshMessageDeliveries exValidated ''B'' ''T'' = 0 \<and>
   counterOf meshMessageDeliveries
     (duplicateMessage 120000 105 (exMsg ''B'') exValidated) ''B'' ''T'' = 0"
  by code_simp

subsection \<open>Runs of refreshScores\<close>

lemma decayCounter_zero: "decayCounter d z 0 = 0"
  by (simp add: decayCounter_def)

lemma decayCounter_funpow: "(decayCounter d z ^^ n) x = decayLaw d z n x"
proof (induction n)
  case 0
  then show ?case by (simp add: decayLaw_def)
next
  case (Suc n)
  have split: "(\<exists>k\<in>{1..Suc n}. x * d ^ k < z) \<longleftrightarrow>
      (\<exists>k\<in>{1..n}. x * d ^ k < z) \<or> x * d ^ Suc n < z"
    by (auto simp: atLeastAtMostSuc_conv)
  show ?case
  proof (cases "\<exists>k\<in>{1..n}. x * d ^ k < z")
    case True
    then have "(decayCounter d z ^^ n) x = 0"
      using Suc.IH by (simp add: decayLaw_def)
    then show ?thesis
      using True split by (simp add: decayLaw_def decayCounter_zero)
  next
    case False
    then have "(decayCounter d z ^^ n) x = x * d ^ n"
      using Suc.IH by (simp add: decayLaw_def)
    then have "(decayCounter d z ^^ Suc n) x = decayCounter d z (x * d ^ n)"
      by simp
    also have "\<dots> = (if x * d ^ Suc n < z then 0 else x * d ^ Suc n)"
      by (simp add: decayCounter_def Let_def mult_ac)
    finally show ?thesis
      using False split by (simp add: decayLaw_def)
  qed
qed

lemma refreshTopic_key: "fst (refreshTopic ps now (topic, tstats)) = topic"
  by (simp add: refreshTopic_def Let_def split: option.splits)

lemma map_of_refreshTopic:
  "map_of (map (refreshTopic ps now) al) t =
   map_option (\<lambda>tstats. snd (refreshTopic ps now (t, tstats))) (map_of al t)"
proof (induction al)
  case Nil
  then show ?case by simp
next
  case (Cons e al)
  obtain topic tstats where e: "e = (topic, tstats)" by (cases e)
  have "refreshTopic ps now (topic, tstats) = (topic, snd (refreshTopic ps now (topic, tstats)))"
    using refreshTopic_key [of ps now topic tstats] by (metis prod.collapse)
  then show ?case
    using Cons.IH e by (metis (no_types, lifting) list.simps(9) map_of_Cons_code(2) option.simps(9))
qed

lemma refreshTopic_scored:
  "map_of (topicParams ps) t = Some tparams \<Longrightarrow>
   firstMessageDeliveries (snd (refreshTopic ps now (t, tstats))) =
     decayCounter (firstMessageDeliveriesDecay tparams) (decayToZero ps) (firstMessageDeliveries tstats) \<and>
   meshMessageDeliveries (snd (refreshTopic ps now (t, tstats))) =
     decayCounter (meshMessageDeliveriesDecay tparams) (decayToZero ps) (meshMessageDeliveries tstats) \<and>
   meshFailurePenalty (snd (refreshTopic ps now (t, tstats))) =
     decayCounter (meshFailurePenaltyDecay tparams) (decayToZero ps) (meshFailurePenalty tstats) \<and>
   invalidMessageDeliveries (snd (refreshTopic ps now (t, tstats))) =
     decayCounter (invalidMessageDeliveriesDecay tparams) (decayToZero ps) (invalidMessageDeliveries tstats)"
  by (simp add: refreshTopic_def Let_def)

lemma refreshPeer_params: "params (refreshPeer now e s) = params s"
  by (cases e) (simp add: refreshPeer_def)

lemma refreshPeer_other:
  "fst e \<noteq> p \<Longrightarrow> map_of (peerStats (refreshPeer now e s)) p = map_of (peerStats s) p"
  by (cases e) (simp add: refreshPeer_def update_conv' delete_conv')

lemma refreshPeer_self:
  "map_of (peerStats s) p = Some pstats \<Longrightarrow>
   map_of (peerStats (refreshPeer now (p, pstats) s)) p = refreshedEntry (params s) now pstats"
  by (simp add: refreshPeer_def refreshedEntry_def update_conv' delete_conv')

lemma fold_refreshPeer_params: "params (fold (refreshPeer now) es s) = params s"
  by (induction es arbitrary: s) (simp_all add: refreshPeer_params)

lemma fold_refreshPeer_lookup:
  assumes "distinct (map fst es)"
    and "\<forall>(q, qstats) \<in> set es. map_of (peerStats s) q = Some qstats"
  shows "map_of (peerStats (fold (refreshPeer now) es s)) p =
         (case map_of es p of
            None \<Rightarrow> map_of (peerStats s) p
          | Some pstats \<Rightarrow> refreshedEntry (params s) now pstats)"
  using assms
proof (induction es arbitrary: s)
  case Nil
  then show ?case by simp
next
  case (Cons e es)
  obtain q qstats where e: "e = (q, qstats)" by (cases e)
  let ?s1 = "refreshPeer now e s"
  have notin: "q \<notin> fst ` set es" and dist: "distinct (map fst es)"
    using Cons.prems(1) e by auto
  have agree1: "\<forall>(r, rstats) \<in> set es. map_of (peerStats ?s1) r = Some rstats"
  proof (clarify)
    fix r rstats assume in_es: "(r, rstats) \<in> set es"
    then have "r \<noteq> q" using notin by force
    then show "map_of (peerStats ?s1) r = Some rstats"
      using Cons.prems(2) in_es e by (auto simp: refreshPeer_other)
  qed
  have ih: "map_of (peerStats (fold (refreshPeer now) es ?s1)) p =
      (case map_of es p of
         None \<Rightarrow> map_of (peerStats ?s1) p
       | Some pstats \<Rightarrow> refreshedEntry (params ?s1) now pstats)"
    using Cons.IH [OF dist agree1] .
  show ?case
  proof (cases "p = q")
    case True
    have none: "map_of es p = None"
      using notin True by (simp add: map_of_eq_None_iff)
    have "map_of (peerStats s) q = Some qstats"
      using Cons.prems(2) e by simp
    then show ?thesis
      using ih none True e refreshPeer_self [of s q qstats now] by simp
  next
    case False
    then show ?thesis
      using ih e by (simp add: refreshPeer_other refreshPeer_params split: option.splits)
  qed
qed

lemma refreshScores_lookup:
  assumes "keysDistinct s"
  shows "map_of (peerStats (refreshScores now s)) p =
         (case map_of (peerStats s) p of
            None \<Rightarrow> None
          | Some pstats \<Rightarrow> refreshedEntry (params s) now pstats)"
proof -
  have agree: "\<forall>(q, qstats) \<in> set (peerStats s). map_of (peerStats s) q = Some qstats"
    using assms by (auto simp: keysDistinct_def)
  show ?thesis
    using fold_refreshPeer_lookup [OF _ agree, of now p] assms
    by (simp add: refreshScores_def keysDistinct_def split: option.splits)
qed

lemma refreshScores_params: "params (refreshScores now s) = params s"
  by (simp add: refreshScores_def fold_refreshPeer_params)

lemma refreshPeer_keysDistinct: "keysDistinct s \<Longrightarrow> keysDistinct (refreshPeer now e s)"
  by (cases e) (simp add: refreshPeer_def keysDistinct_def distinct_update distinct_delete)

lemma keysDistinct_refreshScores: "keysDistinct s \<Longrightarrow> keysDistinct (refreshScores now s)"
proof -
  have "keysDistinct st \<Longrightarrow> keysDistinct (fold (refreshPeer now) es st)" for es st
    by (induction es arbitrary: st) (simp_all add: refreshPeer_keysDistinct)
  then show "keysDistinct s \<Longrightarrow> keysDistinct (refreshScores now s)"
    by (simp add: refreshScores_def)
qed

lemma refreshScores_connected:
  assumes "keysDistinct s" and "map_of (peerStats s) p = Some pstats" and "connected pstats"
  shows "map_of (peerStats (refreshScores now s)) p = Some (refreshConnected (params s) now pstats)"
  using assms by (simp add: refreshScores_lookup refreshedEntry_def)

lemma decayed_n_times:
  assumes "keysDistinct s"
    and "map_of (peerStats s) p = Some pstats"
    and "connected pstats"
    and "map_of (topics pstats) t = Some tstats"
    and "map_of (topicParams (params s)) t = Some tparams"
  shows "\<exists>pstats' tstats'.
           map_of (peerStats (fold refreshScores nows s)) p = Some pstats' \<and>
           map_of (topics pstats') t = Some tstats' \<and>
           firstMessageDeliveries tstats' =
             (decayCounter (firstMessageDeliveriesDecay tparams) (decayToZero (params s)) ^^ length nows)
               (firstMessageDeliveries tstats) \<and>
           meshMessageDeliveries tstats' =
             (decayCounter (meshMessageDeliveriesDecay tparams) (decayToZero (params s)) ^^ length nows)
               (meshMessageDeliveries tstats) \<and>
           meshFailurePenalty tstats' =
             (decayCounter (meshFailurePenaltyDecay tparams) (decayToZero (params s)) ^^ length nows)
               (meshFailurePenalty tstats) \<and>
           invalidMessageDeliveries tstats' =
             (decayCounter (invalidMessageDeliveriesDecay tparams) (decayToZero (params s)) ^^ length nows)
               (invalidMessageDeliveries tstats) \<and>
           behaviourPenalty pstats' =
             (decayCounter (behaviourPenaltyDecay (params s)) (decayToZero (params s)) ^^ length nows)
               (behaviourPenalty pstats)"
  using assms
proof (induction nows arbitrary: s pstats tstats)
  case Nil
  then show ?case by simp
next
  case (Cons now nows)
  let ?s1 = "refreshScores now s"
  let ?pstats1 = "refreshConnected (params s) now pstats"
  let ?tstats1 = "snd (refreshTopic (params s) now (t, tstats))"
  have dist1: "keysDistinct ?s1"
    using Cons.prems(1) by (rule keysDistinct_refreshScores)
  have known1: "map_of (peerStats ?s1) p = Some ?pstats1"
    using Cons.prems(1,2,3) by (rule refreshScores_connected)
  have conn1: "connected ?pstats1"
    using Cons.prems(3) by (simp add: refreshConnected_def)
  have topic1: "map_of (topics ?pstats1) t = Some ?tstats1"
    using Cons.prems(4) by (simp add: refreshConnected_def map_of_refreshTopic)
  have scored1: "map_of (topicParams (params ?s1)) t = Some tparams"
    using Cons.prems(5) by (simp add: refreshScores_params)
  have bp1: "behaviourPenalty ?pstats1 =
      decayCounter (behaviourPenaltyDecay (params s)) (decayToZero (params s)) (behaviourPenalty pstats)"
    by (simp add: refreshConnected_def)
  note counters1 = refreshTopic_scored [OF Cons.prems(5), of now tstats]
  show ?case
    using Cons.IH [OF dist1 known1 conn1 topic1 scored1] counters1 bp1
    by (simp add: refreshScores_params funpow_swap1)
qed

lemma penalty_decayed_n_times:
  assumes "keysDistinct s"
    and "map_of (peerStats s) p = Some pstats"
    and "connected pstats"
  shows "\<exists>pstats'.
           map_of (peerStats (fold refreshScores nows s)) p = Some pstats' \<and>
           behaviourPenalty pstats' =
             (decayCounter (behaviourPenaltyDecay (params s)) (decayToZero (params s)) ^^ length nows)
               (behaviourPenalty pstats)"
  using assms
proof (induction nows arbitrary: s pstats)
  case Nil
  then show ?case by simp
next
  case (Cons now nows)
  let ?s1 = "refreshScores now s"
  let ?pstats1 = "refreshConnected (params s) now pstats"
  have dist1: "keysDistinct ?s1"
    using Cons.prems(1) by (rule keysDistinct_refreshScores)
  have known1: "map_of (peerStats ?s1) p = Some ?pstats1"
    using Cons.prems(1,2,3) by (rule refreshScores_connected)
  have conn1: "connected ?pstats1"
    using Cons.prems(3) by (simp add: refreshConnected_def)
  have bp1: "behaviourPenalty ?pstats1 =
      decayCounter (behaviourPenaltyDecay (params s)) (decayToZero (params s)) (behaviourPenalty pstats)"
    by (simp add: refreshConnected_def)
  show ?case
    using Cons.IH [OF dist1 known1 conn1] bp1
    by (simp add: refreshScores_params funpow_swap1)
qed

subsection \<open>Retained peers and the IP index\<close>

lemma removePeerTopics_scored:
  "\<forall>(topic, tstats) \<in> set al. map_of (topicParams ps) topic \<noteq> None \<Longrightarrow>
   \<exists>al'. removePeerTopics ps al = Inr al'"
proof (induction al)
  case Nil
  then show ?case by simp
next
  case (Cons e al)
  obtain topic tstats where e: "e = (topic, tstats)" by (cases e)
  obtain tparams where scored: "map_of (topicParams ps) topic = Some tparams"
    using Cons.prems e by auto
  obtain al' where rest: "removePeerTopics ps al = Inr al'"
    using Cons by auto
  show ?case
    by (simp add: e scored rest Let_def)
qed

lemma removeIP_bucket:
  "(case map_of (removeIP q ip' idx) ip of None \<Rightarrow> {} | Some bucket \<Rightarrow> bucket) =
   (case map_of idx ip of None \<Rightarrow> {} | Some bucket \<Rightarrow> if ip = ip' then bucket - {q} else bucket)"
  by (auto simp: removeIP_def Let_def update_conv' delete_conv' split: option.splits)

lemma removeIPs_bucket:
  "(case map_of (removeIPs q ipl idx) ip of None \<Rightarrow> {} | Some bucket \<Rightarrow> bucket) =
   (case map_of idx ip of None \<Rightarrow> {} | Some bucket \<Rightarrow> if ip \<in> set ipl then bucket - {q} else bucket)"
proof (induction ipl arbitrary: idx)
  case Nil
  then show ?case by (simp add: removeIPs_def split: option.splits)
next
  case (Cons ip' ipl)
  have "(case map_of (removeIPs q ipl (removeIP q ip' idx)) ip of None \<Rightarrow> {} | Some bucket \<Rightarrow> bucket) =
      (case map_of (removeIP q ip' idx) ip of None \<Rightarrow> {}
       | Some bucket \<Rightarrow> if ip \<in> set ipl then bucket - {q} else bucket)"
    using Cons.IH [of "removeIP q ip' idx"] .
  then show ?case
    using removeIP_bucket [of q ip' idx ip]
    by (auto simp: removeIPs_def removeIP_def Let_def update_conv' delete_conv' split: option.splits)
qed

lemma peersAt_removeIPs:
  "peersAt (s\<lparr>peerIPs := removeIPs q ipl (peerIPs s), peerStats := al\<rparr>) ip =
   (if ip \<in> set ipl then peersAt s ip - {q} else peersAt s ip)"
  using removeIPs_bucket [of q ipl "peerIPs s" ip]
  by (simp add: peersAt_def split: option.splits)

lemma refreshPeer_peersAt_subset: "peersAt (refreshPeer now e s) ip \<subseteq> peersAt s ip"
proof (cases e)
  case (Pair q qstats)
  have "peersAt (s\<lparr>peerStats := al\<rparr>) ip = peersAt s ip" for al
    by (simp add: peersAt_def)
  then show ?thesis
    by (auto simp: Pair refreshPeer_def peersAt_removeIPs)
qed

lemma fold_refreshPeer_peersAt_subset: "peersAt (fold (refreshPeer now) es s) ip \<subseteq> peersAt s ip"
proof (induction es arbitrary: s)
  case Nil
  then show ?case by simp
next
  case (Cons e es)
  show ?case
    using Cons.IH [of "refreshPeer now e s"] refreshPeer_peersAt_subset [of now e s ip] by auto
qed

lemma fold_refreshPeer_expired_ips:
  assumes "(p, pstats) \<in> set es" and "\<not> connected pstats" and "now > expire pstats"
    and "ip \<in> set (ips pstats)"
  shows "p \<notin> peersAt (fold (refreshPeer now) es s) ip"
  using assms(1)
proof (induction es arbitrary: s)
  case Nil
  then show ?case by simp
next
  case (Cons e es)
  show ?case
  proof (cases "e = (p, pstats)")
    case True
    have "p \<notin> peersAt (refreshPeer now e s) ip"
      using assms(2,3,4) by (simp add: True refreshPeer_def peersAt_removeIPs)
    then show ?thesis
      using fold_refreshPeer_peersAt_subset [of now es "refreshPeer now e s" ip] by auto
  next
    case False
    then have "(p, pstats) \<in> set es"
      using Cons.prems by simp
    then show ?thesis
      using Cons.IH [of "refreshPeer now e s"] by simp
  qed
qed

lemma refreshScores_expired_ips:
  assumes "map_of (peerStats s) p = Some pstats" and "\<not> connected pstats"
    and "now > expire pstats" and "ip \<in> set (ips pstats)"
  shows "p \<notin> peersAt (refreshScores now s) ip"
  using fold_refreshPeer_expired_ips [OF map_of_SomeD [OF assms(1)] assms(2,3,4)]
  by (simp add: refreshScores_def)

lemma refreshScores_retained:
  assumes "keysDistinct s" and "map_of (peerStats s) p = Some pstats" and "\<not> connected pstats"
    and "now \<le> expire pstats"
  shows "map_of (peerStats (refreshScores now s)) p = Some pstats"
  using assms by (simp add: refreshScores_lookup refreshedEntry_def)

lemma fold_refreshScores_retained:
  assumes "keysDistinct s" and "map_of (peerStats s) p = Some pstats" and "\<not> connected pstats"
    and "\<forall>now \<in> set nows. now \<le> expire pstats"
  shows "keysDistinct (fold refreshScores nows s) \<and>
         map_of (peerStats (fold refreshScores nows s)) p = Some pstats"
  using assms(1,2,4)
proof (induction nows arbitrary: s)
  case Nil
  then show ?case by simp
next
  case (Cons now nows)
  have "map_of (peerStats (refreshScores now s)) p = Some pstats"
    using refreshScores_retained [OF Cons.prems(1,2) assms(3)] Cons.prems(3) by simp
  then show ?case
    using Cons.IH [of "refreshScores now s"] Cons.prems keysDistinct_refreshScores by simp
qed

lemma removePeerTopics_keys:
  "removePeerTopics ps al = Inr al' \<Longrightarrow> map fst al' = map fst al"
proof (induction al arbitrary: al')
  case Nil
  then show ?case by simp
next
  case (Cons e al)
  obtain topic tstats where e: "e = (topic, tstats)" by (cases e)
  show ?case
    using Cons.prems Cons.IH
    by (auto simp: e Let_def split: option.splits sum.splits)
qed

lemma removePeerTopics_lookup:
  assumes "removePeerTopics ps al = Inr al'"
    and "map_of al topic = Some tstats"
    and "map_of (topicParams ps) topic = Some tparams"
  shows "map_of al' topic =
         Some (tstats\<lparr>firstMessageDeliveries := 0,
                 meshFailurePenalty :=
                   meshFailurePenalty tstats +
                   (if inMesh tstats \<and> meshMessageDeliveriesActive tstats \<and>
                       meshMessageDeliveries tstats < meshMessageDeliveriesThreshold tparams
                    then (meshMessageDeliveriesThreshold tparams - meshMessageDeliveries tstats) *
                         (meshMessageDeliveriesThreshold tparams - meshMessageDeliveries tstats)
                    else 0),
                 inMesh := False\<rparr>)"
  using assms(1,2)
proof (induction al arbitrary: al')
  case Nil
  then show ?case by simp
next
  case (Cons e al)
  obtain topic0 tstats0 where e: "e = (topic0, tstats0)" by (cases e)
  show ?case
  proof (cases "topic0 = topic")
    case True
    then show ?thesis
      using Cons.prems assms(3)
      by (auto simp: e Let_def split: option.splits sum.splits)
  next
    case False
    then show ?thesis
      using Cons.prems Cons.IH
      by (auto simp: e Let_def split: option.splits sum.splits)
  qed
qed

lemma retained_until_expiry:
  assumes "keysDistinct s"
    and "map_of (peerStats s) pid = Some pstats"
    and "score cs pid s \<le> 0"
    and "\<forall>(topic, tstats) \<in> set (topics pstats). map_of (topicParams (params s)) topic \<noteq> None"
    and "\<forall>now \<in> set nows. now \<le> now0 + retainScore (params s)"
    and "late > now0 + retainScore (params s)"
  shows "\<exists>s1 pstats1.
           removePeer cs now0 pid s = Inr s1 \<and>
           map_of (peerStats s1) pid = Some pstats1 \<and>
           \<not> connected pstats1 \<and>
           expire pstats1 = now0 + retainScore (params s) \<and>
           behaviourPenalty pstats1 = behaviourPenalty pstats \<and>
           ips pstats1 = ips pstats \<and>
           map fst (topics pstats1) = map fst (topics pstats) \<and>
           (\<forall>topic tstats tparams.
              map_of (topics pstats) topic = Some tstats \<longrightarrow>
              map_of (topicParams (params s)) topic = Some tparams \<longrightarrow>
              map_of (topics pstats1) topic =
                Some (tstats\<lparr>firstMessageDeliveries := 0,
                        meshFailurePenalty :=
                          meshFailurePenalty tstats +
                          (if inMesh tstats \<and> meshMessageDeliveriesActive tstats \<and>
                              meshMessageDeliveries tstats < meshMessageDeliveriesThreshold tparams
                           then (meshMessageDeliveriesThreshold tparams - meshMessageDeliveries tstats) *
                                (meshMessageDeliveriesThreshold tparams - meshMessageDeliveries tstats)
                           else 0),
                        inMesh := False\<rparr>)) \<and>
           map_of (peerStats (fold refreshScores nows s1)) pid = Some pstats1 \<and>
           map_of (peerStats (refreshScores late (fold refreshScores nows s1))) pid = None \<and>
           (\<forall>ip \<in> set (ips pstats1).
              pid \<notin> peersAt (refreshScores late (fold refreshScores nows s1)) ip)"
proof -
  obtain ts where ts: "removePeerTopics (params s) (topics pstats) = Inr ts"
    using removePeerTopics_scored [OF assms(4)] by blast
  let ?pstats1 = "pstats\<lparr>topics := ts, connected := False,
      expire := now0 + retainScore (params s)\<rparr>"
  let ?s1 = "s\<lparr>peerStats := AList.update pid ?pstats1 (peerStats s)\<rparr>"
  let ?s2 = "fold refreshScores nows ?s1"
  have removed: "removePeer cs now0 pid s = Inr ?s1"
    using assms(2,3) ts by (simp add: removePeer_def)
  have dist1: "keysDistinct ?s1"
    using assms(1) by (simp add: keysDistinct_def distinct_update)
  have known1: "map_of (peerStats ?s1) pid = Some ?pstats1"
    by (simp add: update_conv')
  have topic_keys: "map fst (topics ?pstats1) = map fst (topics pstats)"
    using removePeerTopics_keys [OF ts] by simp
  have topic_stats: "\<forall>topic tstats tparams.
      map_of (topics pstats) topic = Some tstats \<longrightarrow>
      map_of (topicParams (params s)) topic = Some tparams \<longrightarrow>
      map_of (topics ?pstats1) topic =
        Some (tstats\<lparr>firstMessageDeliveries := 0,
                meshFailurePenalty :=
                  meshFailurePenalty tstats +
                  (if inMesh tstats \<and> meshMessageDeliveriesActive tstats \<and>
                      meshMessageDeliveries tstats < meshMessageDeliveriesThreshold tparams
                   then (meshMessageDeliveriesThreshold tparams - meshMessageDeliveries tstats) *
                        (meshMessageDeliveriesThreshold tparams - meshMessageDeliveries tstats)
                   else 0),
                inMesh := False\<rparr>)"
    using removePeerTopics_lookup [OF ts] by simp
  have early: "\<forall>now \<in> set nows. now \<le> expire ?pstats1"
    using assms(5) by simp
  have kept: "keysDistinct ?s2" "map_of (peerStats ?s2) pid = Some ?pstats1"
    using fold_refreshScores_retained [OF dist1 known1 _ early] by simp_all
  have dropped: "map_of (peerStats (refreshScores late ?s2)) pid = None"
    using kept assms(6) by (simp add: refreshScores_lookup refreshedEntry_def)
  have unlisted: "\<forall>ip \<in> set (ips ?pstats1). pid \<notin> peersAt (refreshScores late ?s2) ip"
    using refreshScores_expired_ips [OF kept(2)] assms(6) by simp
  show ?thesis
    apply (rule exI [of _ ?s1])
    apply (rule exI [of _ ?pstats1])
    using removed known1 topic_keys topic_stats kept(2) dropped unlisted
    apply simp
    done
qed

subsection \<open>Counter bounds\<close>

lemma in_set_updateD: "e \<in> set (AList.update k v al) \<Longrightarrow> e = (k, v) \<or> e \<in> set al"
  by (induction al) (auto split: if_splits)

lemma in_set_deleteD: "e \<in> set (AList.delete k al) \<Longrightarrow> e \<in> set al"
  by (simp add: AList.delete_eq)

lemma peerStatsBounded_put:
  assumes "peerStatsBounded ps pstats"
    and "map_of (topicParams ps) topic = Some tparams"
    and "topicStatsBounded tparams tstats"
  shows "peerStatsBounded ps (putTopicStats topic tstats pstats)"
  using assms unfolding peerStatsBounded_def putTopicStats_def
  by (auto dest!: in_set_updateD)

lemma paramsBounded_topic:
  "paramsBounded ps \<Longrightarrow> map_of (topicParams ps) topic = Some tparams \<Longrightarrow> topicParamsBounded tparams"
  unfolding paramsBounded_def by (auto dest: map_of_SomeD)

lemma peerStatsBounded_topic:
  assumes "peerStatsBounded ps pstats" and "map_of (topics pstats) topic = Some tstats"
  shows "\<exists>tparams. map_of (topicParams ps) topic = Some tparams \<and> topicStatsBounded tparams tstats"
proof -
  have "(topic, tstats) \<in> set (topics pstats)"
    using assms(2) by (rule map_of_SomeD)
  then show ?thesis
    using assms(1) unfolding peerStatsBounded_def by (auto split: option.splits)
qed

lemma createTopicStats_bounded:
  "topicParamsBounded tparams \<Longrightarrow> topicStatsBounded tparams createTopicStats"
  by (simp add: topicParamsBounded_def topicStatsBounded_def createTopicStats_def)

lemma ensureTopicStats_bounded:
  assumes "paramsBounded ps" and "peerStatsBounded ps pstats"
    and "ensureTopicStats topic pstats ps = Some (tstats, pstats1)"
  shows "peerStatsBounded ps pstats1 \<and>
         (\<exists>tparams. map_of (topicParams ps) topic = Some tparams \<and>
            topicStatsBounded tparams tstats \<and> topicParamsBounded tparams)"
proof -
  obtain tparams where scored: "map_of (topicParams ps) topic = Some tparams"
    using assms(3) by (auto simp: ensureTopicStats_def split: option.splits)
  have pb: "topicParamsBounded tparams"
    using assms(1) scored by (rule paramsBounded_topic)
  show ?thesis
  proof (cases "map_of (topics pstats) topic")
    case None
    then have eq: "tstats = createTopicStats" "pstats1 = putTopicStats topic createTopicStats pstats"
      using assms(3) scored by (simp_all add: ensureTopicStats_def putTopicStats_def)
    show ?thesis
      using scored pb createTopicStats_bounded [OF pb]
        peerStatsBounded_put [OF assms(2) scored createTopicStats_bounded [OF pb]]
      by (simp add: eq)
  next
    case (Some old)
    then have eq: "tstats = old" "pstats1 = pstats"
      using assms(3) scored by (simp_all add: ensureTopicStats_def)
    show ?thesis
      using peerStatsBounded_topic [OF assms(2) Some] scored pb assms(2) by (simp add: eq)
  qed
qed

lemma markInvalidTopic_bounded:
  assumes "paramsBounded ps" and "peerStatsBounded ps pstats"
  shows "peerStatsBounded ps (markInvalidTopic ps topic pstats)"
proof (cases "ensureTopicStats topic pstats ps")
  case None
  then show ?thesis using assms(2) by (simp add: markInvalidTopic_def)
next
  case (Some r)
  obtain tstats pstats1 where r: "r = (tstats, pstats1)" by (cases r)
  obtain tparams where b: "peerStatsBounded ps pstats1" "map_of (topicParams ps) topic = Some tparams"
      "topicStatsBounded tparams tstats"
    using ensureTopicStats_bounded [OF assms] Some r by blast
  have "topicStatsBounded tparams
      (tstats\<lparr>invalidMessageDeliveries := invalidMessageDeliveries tstats + 1\<rparr>)"
    using b(3) by (simp add: topicStatsBounded_def)
  then show ?thesis
    using peerStatsBounded_put [OF b(1,2)] by (simp add: markInvalidTopic_def Some r)
qed

lemma markFirstTopic_bounded:
  assumes "paramsBounded ps" and "peerStatsBounded ps pstats"
  shows "peerStatsBounded ps (markFirstTopic ps topic pstats)"
proof (cases "ensureTopicStats topic pstats ps")
  case None
  then show ?thesis using assms(2) by (simp add: markFirstTopic_def)
next
  case (Some r)
  obtain tstats pstats1 where r: "r = (tstats, pstats1)" by (cases r)
  obtain tparams where b: "peerStatsBounded ps pstats1" "map_of (topicParams ps) topic = Some tparams"
      "topicStatsBounded tparams tstats" "topicParamsBounded tparams"
    using ensureTopicStats_bounded [OF assms] Some r by blast
  let ?t2 = "tstats\<lparr>firstMessageDeliveries :=
      min (firstMessageDeliveries tstats + 1) (firstMessageDeliveriesCap tparams)\<rparr>"
  let ?t4 = "?t2\<lparr>meshMessageDeliveries :=
      min (meshMessageDeliveries tstats + 1) (meshMessageDeliveriesCap tparams)\<rparr>"
  have t2: "topicStatsBounded tparams ?t2"
    using b(3,4) by (simp add: topicStatsBounded_def topicParamsBounded_def)
  have t4: "topicStatsBounded tparams ?t4"
    using b(3,4) by (simp add: topicStatsBounded_def topicParamsBounded_def)
  have "markFirstTopic ps topic pstats =
      (if \<not> inMesh tstats then putTopicStats topic ?t2 pstats1 else putTopicStats topic ?t4 pstats1)"
    by (simp add: markFirstTopic_def Some r b(2) Let_def min_def)
  then show ?thesis
    using peerStatsBounded_put [OF b(1,2) t2] peerStatsBounded_put [OF b(1,2) t4] by simp
qed

lemma markDuplicateTopic_bounded:
  assumes "paramsBounded ps" and "peerStatsBounded ps pstats"
  shows "peerStatsBounded ps (markDuplicateTopic ps v now topic pstats)"
proof (cases "ensureTopicStats topic pstats ps")
  case None
  then show ?thesis using assms(2) by (simp add: markDuplicateTopic_def)
next
  case (Some r)
  obtain tstats pstats1 where r: "r = (tstats, pstats1)" by (cases r)
  obtain tparams where b: "peerStatsBounded ps pstats1" "map_of (topicParams ps) topic = Some tparams"
      "topicStatsBounded tparams tstats" "topicParamsBounded tparams"
    using ensureTopicStats_bounded [OF assms] Some r by blast
  let ?t2 = "tstats\<lparr>meshMessageDeliveries :=
      min (meshMessageDeliveries tstats + 1) (meshMessageDeliveriesCap tparams)\<rparr>"
  have t2: "topicStatsBounded tparams ?t2"
    using b(3,4) by (simp add: topicStatsBounded_def topicParamsBounded_def)
  have "markDuplicateTopic ps v now topic pstats = pstats1 \<or>
      markDuplicateTopic ps v now topic pstats = putTopicStats topic ?t2 pstats1"
    by (simp add: markDuplicateTopic_def Some r b(2) Let_def min_def)
  then show ?thesis
    using b(1) peerStatsBounded_put [OF b(1,2) t2] by auto
qed

text \<open>A loop whose body keeps a property keeps it.\<close>

lemma fold_invariant:
  "(\<And>x st. P st \<Longrightarrow> P (f x st)) \<Longrightarrow> P s \<Longrightarrow> P (fold f xs s)"
  by (induction xs arbitrary: s) simp_all

lemma counterBounds_known:
  "counterBounds s \<Longrightarrow> map_of (peerStats s) pid = Some pstats \<Longrightarrow> peerStatsBounded (params s) pstats"
  unfolding counterBounds_def by (auto dest: map_of_SomeD)

lemma counterBounds_update:
  assumes "counterBounds s" and "peerStatsBounded (params s) pstats"
  shows "counterBounds (s\<lparr>peerStats := AList.update pid pstats (peerStats s)\<rparr>)"
  using assms unfolding counterBounds_def by (auto dest!: in_set_updateD)

lemma counterBounds_delete:
  "counterBounds s \<Longrightarrow> counterBounds (s\<lparr>peerStats := AList.delete pid (peerStats s)\<rparr>)"
  unfolding counterBounds_def by (auto dest!: in_set_deleteD)

lemma counterBounds_frame [simp]:
  "counterBounds (s\<lparr>deliveryRecords := md\<rparr>) = counterBounds s"
  "counterBounds (s\<lparr>peerIPs := idx\<rparr>) = counterBounds s"
  "counterBounds (s\<lparr>peerIPs := idx, peerStats := al\<rparr>) = counterBounds (s\<lparr>peerStats := al\<rparr>)"
  by (simp_all add: counterBounds_def)

lemma markInvalid_bounded:
  assumes "paramsBounded (params s)" and "counterBounds s"
  shows "counterBounds (markInvalidMessageDelivery pid message s)"
proof (cases "map_of (peerStats s) pid")
  case None
  then show ?thesis using assms(2) by (simp add: markInvalidMessageDelivery_def)
next
  case (Some pstats)
  have "peerStatsBounded (params s) (fold (markInvalidTopic (params s)) (topicIDs message) pstats)"
    using assms(1) counterBounds_known [OF assms(2) Some]
    by (intro fold_invariant [where P = "peerStatsBounded (params s)"] markInvalidTopic_bounded)
  then show ?thesis
    using counterBounds_update [OF assms(2)] by (simp add: markInvalidMessageDelivery_def Some)
qed

lemma markFirst_bounded:
  assumes "paramsBounded (params s)" and "counterBounds s"
  shows "counterBounds (markFirstMessageDelivery pid message s)"
proof (cases "map_of (peerStats s) pid")
  case None
  then show ?thesis using assms(2) by (simp add: markFirstMessageDelivery_def)
next
  case (Some pstats)
  have "peerStatsBounded (params s) (fold (markFirstTopic (params s)) (topicIDs message) pstats)"
    using assms(1) counterBounds_known [OF assms(2) Some]
    by (intro fold_invariant [where P = "peerStatsBounded (params s)"] markFirstTopic_bounded)
  then show ?thesis
    using counterBounds_update [OF assms(2)] by (simp add: markFirstMessageDelivery_def Some)
qed

lemma markDuplicate_bounded:
  assumes "paramsBounded (params s)" and "counterBounds s"
  shows "counterBounds (markDuplicateMessageDelivery pid message v clock s)"
proof (cases "map_of (peerStats s) pid")
  case None
  then show ?thesis using assms(2) by (simp add: markDuplicateMessageDelivery_def)
next
  case (Some pstats)
  have "peerStatsBounded (params s)
      (fold (markDuplicateTopic (params s) v now) (topicIDs message) pstats)" for now
    using assms(1) counterBounds_known [OF assms(2) Some]
    by (intro fold_invariant [where P = "peerStatsBounded (params s)"] markDuplicateTopic_bounded)
  then show ?thesis
    using counterBounds_update [OF assms(2)]
    by (simp add: markDuplicateMessageDelivery_def Some Let_def)
qed

lemma graft_bounded:
  assumes "paramsBounded (params s)" and "counterBounds s"
  shows "counterBounds (graft now pid topic s)"
proof (cases "map_of (peerStats s) pid")
  case None
  then show ?thesis using assms(2) by (simp add: graft_def)
next
  case (Some pstats)
  note pb = counterBounds_known [OF assms(2) Some]
  show ?thesis
  proof (cases "ensureTopicStats topic pstats (params s)")
    case None
    then show ?thesis using assms(2) by (simp add: graft_def Some)
  next
    case ens: (Some r)
    obtain tstats pstats1 where r: "r = (tstats, pstats1)" by (cases r)
    obtain tparams where b: "peerStatsBounded (params s) pstats1"
        "map_of (topicParams (params s)) topic = Some tparams" "topicStatsBounded tparams tstats"
      using ensureTopicStats_bounded [OF assms(1) pb] ens r by blast
    have "topicStatsBounded tparams
        (tstats\<lparr>inMesh := True, graftTime := now, meshTime := 0,
                meshMessageDeliveriesActive := False\<rparr>)"
      using b(3) by (simp add: topicStatsBounded_def)
    then show ?thesis
      using counterBounds_update [OF assms(2) peerStatsBounded_put [OF b(1,2)]]
      by (simp add: graft_def Some ens r)
  qed
qed

lemma prune_bounded:
  assumes "paramsBounded (params s)" and "counterBounds s"
  shows "counterBounds (prune pid topic s)"
proof (cases "map_of (peerStats s) pid")
  case None
  then show ?thesis using assms(2) by (simp add: prune_def)
next
  case (Some pstats)
  note pb = counterBounds_known [OF assms(2) Some]
  show ?thesis
  proof (cases "ensureTopicStats topic pstats (params s)")
    case None
    then show ?thesis using assms(2) by (simp add: prune_def Some)
  next
    case ens: (Some r)
    obtain tstats pstats1 where r: "r = (tstats, pstats1)" by (cases r)
    obtain tparams where b: "peerStatsBounded (params s) pstats1"
        "map_of (topicParams (params s)) topic = Some tparams" "topicStatsBounded tparams tstats"
      using ensureTopicStats_bounded [OF assms(1) pb] ens r by blast
    have "topicStatsBounded tparams
        (tstats\<lparr>meshFailurePenalty := meshFailurePenalty tstats + d * d, inMesh := False\<rparr>)" for d
      using b(3) by (simp add: topicStatsBounded_def)
    moreover have "topicStatsBounded tparams (tstats\<lparr>inMesh := False\<rparr>)"
      using b(3) by (simp add: topicStatsBounded_def)
    ultimately show ?thesis
      using counterBounds_update [OF assms(2) peerStatsBounded_put [OF b(1,2)]]
      by (simp add: prune_def Some ens r b(2) Let_def)
  qed
qed

lemma addPenalty_bounded:
  assumes "counterBounds s" and "0 \<le> penalty"
  shows "counterBounds (addPenalty pid penalty s)"
proof (cases "map_of (peerStats s) pid")
  case None
  then show ?thesis using assms(1) by (simp add: addPenalty_def)
next
  case (Some pstats)
  have "peerStatsBounded (params s) (pstats\<lparr>behaviourPenalty := behaviourPenalty pstats + penalty\<rparr>)"
    using counterBounds_known [OF assms(1) Some] assms(2) by (simp add: peerStatsBounded_def)
  then show ?thesis
    using counterBounds_update [OF assms(1)] by (simp add: addPenalty_def Some)
qed

lemma addPeer_bounded:
  assumes "counterBounds s"
  shows "counterBounds (addPeer cm pid s)"
proof -
  have fresh: "peerStatsBounded (params s) ((createPeerStats True)\<lparr>ips := ipl\<rparr>)" for ipl
    by (simp add: peerStatsBounded_def createPeerStats_def)
  have "peerStatsBounded (params s) (createPeerStats True)"
    by (simp add: peerStatsBounded_def createPeerStats_def)
  then have first: "counterBounds (s\<lparr>peerStats := AList.update pid (createPeerStats True) (peerStats s)\<rparr>)"
    using counterBounds_update [OF assms] by simp
  show ?thesis
    using counterBounds_update [OF first, of "(createPeerStats True)\<lparr>ips := cm pid\<rparr>" pid] fresh
    by (simp add: addPeer_def Let_def)
qed

lemma removePeerTopics_bounded:
  assumes "\<forall>(topic, tstats) \<in> set al.
      case map_of (topicParams ps) topic of None \<Rightarrow> False
      | Some tparams \<Rightarrow> topicStatsBounded tparams tstats"
  shows "\<exists>al'. removePeerTopics ps al = Inr al' \<and>
      (\<forall>(topic, tstats) \<in> set al'.
         case map_of (topicParams ps) topic of None \<Rightarrow> False
         | Some tparams \<Rightarrow> topicStatsBounded tparams tstats)"
  using assms
proof (induction al)
  case Nil
  then show ?case by simp
next
  case (Cons e al)
  obtain topic tstats where e: "e = (topic, tstats)" by (cases e)
  obtain tparams where scored: "map_of (topicParams ps) topic = Some tparams"
      and tb: "topicStatsBounded tparams tstats"
    using Cons.prems e by (auto split: option.splits)
  obtain al' where rest: "removePeerTopics ps al = Inr al'"
      and restb: "\<forall>(topic, tstats) \<in> set al'.
         case map_of (topicParams ps) topic of None \<Rightarrow> False
         | Some tparams \<Rightarrow> topicStatsBounded tparams tstats"
    using Cons by auto
  have "topicStatsBounded tparams
      (tstats\<lparr>firstMessageDeliveries := 0,
              meshFailurePenalty := meshFailurePenalty tstats + d * d, inMesh := False\<rparr>)" for d
    using tb by (simp add: topicStatsBounded_def)
  moreover have "topicStatsBounded tparams (tstats\<lparr>firstMessageDeliveries := 0, inMesh := False\<rparr>)"
    using tb by (simp add: topicStatsBounded_def)
  ultimately show ?case
    using restb by (simp add: e scored rest Let_def)
qed

lemma removePeer_bounded:
  assumes "counterBounds s"
  shows "\<exists>s'. removePeer cs now pid s = Inr s' \<and> counterBounds s' \<and> params s' = params s"
proof (cases "map_of (peerStats s) pid")
  case None
  then show ?thesis using assms by (simp add: removePeer_def)
next
  case (Some pstats)
  note pb = counterBounds_known [OF assms Some]
  show ?thesis
  proof (cases "score cs pid s > 0")
    case True
    then show ?thesis
      using counterBounds_delete [OF assms, of pid] by (simp add: removePeer_def Some)
  next
    case False
    obtain ts where ts: "removePeerTopics (params s) (topics pstats) = Inr ts"
        and tsb: "\<forall>(topic, tstats) \<in> set ts.
           case map_of (topicParams (params s)) topic of None \<Rightarrow> False
           | Some tparams \<Rightarrow> topicStatsBounded tparams tstats"
      using removePeerTopics_bounded [of "topics pstats" "params s"] pb
      unfolding peerStatsBounded_def by blast
    have "peerStatsBounded (params s)
        (pstats\<lparr>topics := ts, connected := False, expire := now + retainScore (params s)\<rparr>)"
      using pb tsb by (simp add: peerStatsBounded_def)
    then show ?thesis
      using counterBounds_update [OF assms] False by (simp add: removePeer_def Some ts)
  qed
qed

lemma decayCounter_nonneg: "0 \<le> x \<Longrightarrow> 0 \<le> d \<Longrightarrow> 0 \<le> decayCounter d z x"
  by (simp add: decayCounter_def Let_def)

lemma decayCounter_le: "0 \<le> x \<Longrightarrow> x \<le> c \<Longrightarrow> 0 \<le> d \<Longrightarrow> d \<le> 1 \<Longrightarrow> decayCounter d z x \<le> c"
proof -
  assume a: "0 \<le> x" "x \<le> c" "0 \<le> d" "d \<le> 1"
  have "x * d \<le> x * 1"
    using a(4,1) by (rule mult_left_mono)
  then show ?thesis
    using a(1,2) by (simp add: decayCounter_def Let_def)
qed

lemma refreshTopic_bounded:
  assumes "paramsBounded ps"
    and "case map_of (topicParams ps) topic of None \<Rightarrow> False
         | Some tparams \<Rightarrow> topicStatsBounded tparams tstats"
  shows "case refreshTopic ps now (topic, tstats) of (topic', tstats') \<Rightarrow>
         (case map_of (topicParams ps) topic' of None \<Rightarrow> False
          | Some tparams \<Rightarrow> topicStatsBounded tparams tstats')"
proof -
  obtain tparams where scored: "map_of (topicParams ps) topic = Some tparams"
      and tb: "topicStatsBounded tparams tstats"
    using assms(2) by (auto split: option.splits)
  have pb: "topicParamsBounded tparams"
    using assms(1) scored by (rule paramsBounded_topic)
  have c: "0 \<le> decayCounter (firstMessageDeliveriesDecay tparams) (decayToZero ps) (firstMessageDeliveries tstats)"
      "decayCounter (firstMessageDeliveriesDecay tparams) (decayToZero ps) (firstMessageDeliveries tstats)
         \<le> firstMessageDeliveriesCap tparams"
      "0 \<le> decayCounter (meshMessageDeliveriesDecay tparams) (decayToZero ps) (meshMessageDeliveries tstats)"
      "decayCounter (meshMessageDeliveriesDecay tparams) (decayToZero ps) (meshMessageDeliveries tstats)
         \<le> meshMessageDeliveriesCap tparams"
      "0 \<le> decayCounter (meshFailurePenaltyDecay tparams) (decayToZero ps) (meshFailurePenalty tstats)"
      "0 \<le> decayCounter (invalidMessageDeliveriesDecay tparams) (decayToZero ps) (invalidMessageDeliveries tstats)"
    using tb pb
    by (simp_all add: topicStatsBounded_def topicParamsBounded_def decayCounter_nonneg decayCounter_le)
  show ?thesis
    using c by (simp add: refreshTopic_def scored Let_def topicStatsBounded_def)
qed

lemma refreshConnected_bounded:
  assumes "paramsBounded ps" and "peerStatsBounded ps pstats"
  shows "peerStatsBounded ps (refreshConnected ps now pstats)"
proof -
  have bp: "0 \<le> decayCounter (behaviourPenaltyDecay ps) (decayToZero ps) (behaviourPenalty pstats)"
    using assms by (simp add: decayCounter_nonneg paramsBounded_def peerStatsBounded_def)
  have "\<forall>e \<in> set (topics pstats). case refreshTopic ps now e of (topic', tstats') \<Rightarrow>
         (case map_of (topicParams ps) topic' of None \<Rightarrow> False
          | Some tparams \<Rightarrow> topicStatsBounded tparams tstats')"
  proof
    fix e assume mem: "e \<in> set (topics pstats)"
    obtain topic tstats where e: "e = (topic, tstats)" by (cases e)
    show "case refreshTopic ps now e of (topic', tstats') \<Rightarrow>
         (case map_of (topicParams ps) topic' of None \<Rightarrow> False
          | Some tparams \<Rightarrow> topicStatsBounded tparams tstats')"
      unfolding e
      using assms(2) mem e
      by (intro refreshTopic_bounded [OF assms(1)]) (auto simp: peerStatsBounded_def)
  qed
  then show ?thesis
    using bp by (simp add: refreshConnected_def peerStatsBounded_def)
qed

lemma refreshPeer_bounded:
  assumes "paramsBounded (params s)" and "counterBounds s"
    and "peerStatsBounded (params s) (snd e)"
  shows "counterBounds (refreshPeer now e s)"
proof (cases e)
  case (Pair pid pstats)
  have "peerStatsBounded (params s) (refreshConnected (params s) now pstats)"
    using assms(1,3) Pair by (simp add: refreshConnected_bounded)
  then show ?thesis
    using assms(2) counterBounds_delete [OF assms(2), of pid] counterBounds_update [OF assms(2)]
    by (simp add: Pair refreshPeer_def)
qed

lemma fold_refreshPeer_bounded:
  assumes "paramsBounded (params s)" and "counterBounds s"
    and "\<forall>e \<in> set es. peerStatsBounded (params s) (snd e)"
  shows "counterBounds (fold (refreshPeer now) es s)"
  using assms
proof (induction es arbitrary: s)
  case Nil
  then show ?case by simp
next
  case (Cons e es)
  have "counterBounds (refreshPeer now e s)"
    using Cons.prems by (simp add: refreshPeer_bounded)
  then show ?case
    using Cons.IH [of "refreshPeer now e s"] Cons.prems by (simp add: refreshPeer_params)
qed

lemma refreshScores_bounded:
  assumes "paramsBounded (params s)" and "counterBounds s"
  shows "counterBounds (refreshScores now s)"
proof -
  have "\<forall>e \<in> set (peerStats s). peerStatsBounded (params s) (snd e)"
    using assms(2) by (auto simp: counterBounds_def)
  then show ?thesis
    using assms by (simp add: refreshScores_def fold_refreshPeer_bounded)
qed

lemma deliverMessage_bounded:
  assumes "paramsBounded (params s)" and "counterBounds s"
  shows "counterBounds (deliverMessage tcd now message s)"
proof -
  let ?s1 = "markFirstMessageDelivery (receivedFrom message) message s"
  have p1: "params ?s1 = params s"
    using markFirst_frame [of "receivedFrom message" message s] by simp
  have b1: "counterBounds ?s1"
    using assms by (rule markFirst_bounded)
  have loop: "counterBounds (fold (\<lambda>p st. if p \<noteq> q then markDuplicateMessageDelivery p message 0 now st
      else st) xs st0)"
    if "counterBounds st0" and "params st0 = params s" for q xs st0
  proof -
    have "counterBounds (fold (\<lambda>p st. if p \<noteq> q then markDuplicateMessageDelivery p message 0 now st
        else st) xs st0) \<and>
      params (fold (\<lambda>p st. if p \<noteq> q then markDuplicateMessageDelivery p message 0 now st
        else st) xs st0) = params s"
      using that assms(1)
      by (intro fold_invariant [where P = "\<lambda>st. counterBounds st \<and> params st = params s"])
        (auto simp: markDuplicate_bounded markDuplicate_frame)
    then show ?thesis by simp
  qed
  show ?thesis
    using b1 p1 by (auto simp: deliverMessage_def Let_def loop split: prod.splits)
qed

lemma rejectMessage_bounded:
  assumes "paramsBounded (params s)" and "counterBounds s"
  shows "counterBounds (rejectMessage tcd now message reason s)"
proof -
  have loop: "counterBounds (fold (\<lambda>p st. markInvalidMessageDelivery p message st) xs st0)"
    if "counterBounds st0" and "params st0 = params s" for xs st0
  proof -
    have "counterBounds (fold (\<lambda>p st. markInvalidMessageDelivery p message st) xs st0) \<and>
      params (fold (\<lambda>p st. markInvalidMessageDelivery p message st) xs st0) = params s"
      using that assms(1)
      by (intro fold_invariant [where P = "\<lambda>st. counterBounds st \<and> params st = params s"])
        (auto simp: markInvalid_bounded markInvalid_frame)
    then show ?thesis by simp
  qed
  have one: "counterBounds (markInvalidMessageDelivery p message (s\<lparr>deliveryRecords := md\<rparr>))" for p md
    using assms by (simp add: markInvalid_bounded)
  have pone: "params (markInvalidMessageDelivery p message (s\<lparr>deliveryRecords := md\<rparr>)) = params s" for p md
    using markInvalid_frame [of p message "s\<lparr>deliveryRecords := md\<rparr>"] by simp
  show ?thesis
    using assms one pone
    by (auto simp: rejectMessage_def Let_def loop markInvalid_bounded split: prod.splits)
qed

lemma duplicateMessage_bounded:
  assumes "paramsBounded (params s)" and "counterBounds s"
  shows "counterBounds (duplicateMessage tcd now message s)"
proof -
  have inv: "counterBounds (markInvalidMessageDelivery p message (s\<lparr>deliveryRecords := md\<rparr>))" for p md
    using assms by (simp add: markInvalid_bounded)
  have dup: "counterBounds (markDuplicateMessageDelivery p message v now (s\<lparr>deliveryRecords := md\<rparr>))"
    for p md v
    using assms by (simp add: markDuplicate_bounded)
  show ?thesis
    using assms(2) inv dup
    by (auto simp: duplicateMessage_def Let_def split: prod.splits DeliveryRecordStatus.splits)
qed

lemma hooks_params:
  "params (addPeer cm pid s) = params s"
  "params (graft now pid topic s) = params s"
  "params (prune pid topic s) = params s"
  "params (addPenalty pid penalty s) = params s"
  by (simp_all add: addPeer_def graft_def prune_def addPenalty_def Let_def
      split: option.splits prod.splits)

lemma deliverMessage_params: "params (deliverMessage tcd now message s) = params s"
proof -
  have loop: "params (fold (\<lambda>p st. if p \<noteq> q then markDuplicateMessageDelivery p message 0 now st
      else st) xs st0) = params st0" for q xs st0
    by (rule fold_keeps [where obs = params]) (simp add: markDuplicate_frame)
  show ?thesis
    by (simp add: deliverMessage_def Let_def loop markFirst_frame split: prod.splits)
qed

lemma rejectMessage_params: "params (rejectMessage tcd now message reason s) = params s"
proof -
  have loop: "params (fold (\<lambda>p st. markInvalidMessageDelivery p message st) xs st0) = params st0"
    for xs st0
    by (rule fold_keeps [where obs = params]) (simp add: markInvalid_frame)
  show ?thesis
    by (simp add: rejectMessage_def Let_def loop markInvalid_frame split: prod.splits)
qed

lemma duplicateMessage_params: "params (duplicateMessage tcd now message s) = params s"
  by (simp add: duplicateMessage_def Let_def markInvalid_frame markDuplicate_frame
      split: prod.splits DeliveryRecordStatus.splits)

lemma step_bounded:
  assumes "paramsBounded (params s)" and "counterBounds s" and "penaltyNonneg ev"
  shows "\<exists>s'. step cs tcd ev s = Inr s' \<and> counterBounds s' \<and> params s' = params s"
proof (cases ev)
  case (RemovePeer now pid)
  then show ?thesis using removePeer_bounded [OF assms(2)] by simp
next
  case (AddPenalty pid penalty)
  then show ?thesis using assms by (simp add: addPenalty_bounded hooks_params)
qed (use assms in \<open>simp_all add: addPeer_bounded graft_bounded prune_bounded deliverMessage_bounded
    rejectMessage_bounded duplicateMessage_bounded refreshScores_bounded hooks_params
    deliverMessage_params rejectMessage_params duplicateMessage_params refreshScores_params\<close>)

lemma run_bounded:
  assumes "paramsBounded (params s)" and "counterBounds s" and "\<forall>ev \<in> set evs. penaltyNonneg ev"
  shows "\<exists>s'. run cs tcd evs s = Inr s' \<and> counterBounds s'"
  using assms
proof (induction evs arbitrary: s)
  case Nil
  then show ?case by simp
next
  case (Cons ev evs)
  obtain s1 where s1: "step cs tcd ev s = Inr s1" "counterBounds s1" "params s1 = params s"
    using step_bounded [OF Cons.prems(1,2), of ev cs tcd] Cons.prems(3) by auto
  show ?case
    using Cons.IH [of s1] s1 Cons.prems by simp
qed

text \<open>
  C2, as the code has it. The engine is built with parameters within their bounds (no
  negative cap, the decay factors of the capped counters in \<open>[0, 1]\<close>, no other decay
  factor negative) and is driven by a trace of hook calls and \<open>refreshScores\<close> runs in which
  no \<open>AddPenalty\<close> passes a negative penalty. Then no call throws, and in the state
  reached every statistics object is on a scored topic, its four counters are not
  negative, \<open>firstMessageDeliveries\<close> and \<open>meshMessageDeliveries\<close> are at most their caps,
  and no \<open>behaviourPenalty\<close> is negative.
\<close>

theorem counter_bounds_invariant:
  assumes "paramsBounded ps" and "\<forall>ev \<in> set evs. penaltyNonneg ev"
  shows "\<exists>s. run cs tcd evs (constructor ps mid) = Inr s \<and> counterBounds s"
proof -
  have empty: "counterBounds (constructor ps mid)"
    by (simp add: counterBounds_def constructor_def)
  have pb: "paramsBounded (params (constructor ps mid))"
    using assms(1) by (simp add: constructor_def)
  show ?thesis
    using pb empty assms(2) by (rule run_bounded)
qed

theorem counter_bounds_invariant_witness:
  "paramsBounded exParams \<and> list_all penaltyNonneg exTrace \<and>
   (case run exScore 120000 exTrace exInit of
      Inl e \<Rightarrow> False
    | Inr s \<Rightarrow> counterBounds s \<and> map fst (peerStats s) = [''B''])"
proof -
  have pb: "paramsBounded exParams"
    by code_simp
  have pen: "\<forall>ev \<in> set exTrace. penaltyNonneg ev"
    by code_simp
  have keys: "(case run exScore 120000 exTrace exInit of
      Inl e \<Rightarrow> False | Inr s \<Rightarrow> map fst (peerStats s) = [''B''])"
    by code_simp
  show ?thesis
    using counter_bounds_invariant [OF pb pen, of exScore 120000 data] pb pen keys
    by (auto simp: exInit_def list_all_iff)
qed

text \<open>
  C2 as stated: a negative penalty makes \<open>behaviourPenalty\<close> negative, under parameters
  within their bounds.
\<close>

theorem counter_bounds_negative_penalty_counterexample:
  "paramsBounded exParams \<and>
   (case run exScore 120000 [AddPeer ''A'' [], AddPenalty ''A'' (- 1)] exInit of
      Inl e \<Rightarrow> False
    | Inr s \<Rightarrow> map_option behaviourPenalty (map_of (peerStats s) ''A'') = Some (- 1))"
  by code_simp

subsection \<open>Well-formed states\<close>

lemma statsScored_put:
  "statsScored ps pstats \<Longrightarrow> map_of (topicParams ps) topic \<noteq> None \<Longrightarrow>
   statsScored ps (putTopicStats topic tstats pstats)"
  unfolding statsScored_def putTopicStats_def by (auto dest!: in_set_updateD)

lemma ensureTopicStats_statsScored:
  assumes "statsScored ps pstats" and "ensureTopicStats topic pstats ps = Some (tstats, pstats1)"
  shows "statsScored ps pstats1"
proof -
  have scored: "map_of (topicParams ps) topic \<noteq> None"
    using assms(2) by (rule ensureTopicStats_scored)
  have "pstats1 = pstats \<or> pstats1 = putTopicStats topic createTopicStats pstats"
    using assms(2) by (auto simp: ensureTopicStats_def putTopicStats_def split: option.splits)
  then show ?thesis
    using assms(1) statsScored_put [OF assms(1) scored] by auto
qed

lemma markInvalidTopic_statsScored:
  "statsScored ps pstats \<Longrightarrow> statsScored ps (markInvalidTopic ps topic pstats)"
  by (auto simp: markInvalidTopic_def split: option.splits
      intro!: statsScored_put dest: ensureTopicStats_statsScored ensureTopicStats_scored)

lemma markFirstTopic_statsScored:
  "statsScored ps pstats \<Longrightarrow> statsScored ps (markFirstTopic ps topic pstats)"
  by (auto simp: markFirstTopic_def Let_def split: option.splits
      intro!: statsScored_put dest: ensureTopicStats_statsScored ensureTopicStats_scored)

lemma markDuplicateTopic_statsScored:
  "statsScored ps pstats \<Longrightarrow> statsScored ps (markDuplicateTopic ps v now topic pstats)"
  by (auto simp: markDuplicateTopic_def Let_def split: option.splits
      intro!: statsScored_put dest: ensureTopicStats_statsScored ensureTopicStats_scored)

lemma wellFormed_known:
  "wellFormed s \<Longrightarrow> map_of (peerStats s) pid = Some pstats \<Longrightarrow> statsScored (params s) pstats"
  unfolding wellFormed_def by (auto dest: map_of_SomeD)

lemma wellFormed_update:
  "wellFormed s \<Longrightarrow> statsScored (params s) pstats \<Longrightarrow>
   wellFormed (s\<lparr>peerStats := AList.update pid pstats (peerStats s)\<rparr>)"
  unfolding wellFormed_def keysDistinct_def by (auto simp: distinct_update dest!: in_set_updateD)

lemma wellFormed_delete:
  "wellFormed s \<Longrightarrow> wellFormed (s\<lparr>peerStats := AList.delete pid (peerStats s)\<rparr>)"
  unfolding wellFormed_def keysDistinct_def by (auto simp: distinct_delete dest!: in_set_deleteD)

lemma wellFormed_frame [simp]:
  "wellFormed (s\<lparr>deliveryRecords := md\<rparr>) = wellFormed s"
  "wellFormed (s\<lparr>peerIPs := idx\<rparr>) = wellFormed s"
  "wellFormed (s\<lparr>backgroundInterval := b\<rparr>) = wellFormed s"
  "wellFormed (s\<lparr>peerIPs := idx, peerStats := al\<rparr>) = wellFormed (s\<lparr>peerStats := al\<rparr>)"
  by (simp_all add: wellFormed_def keysDistinct_def)

lemma wellFormed_constructor: "wellFormed (constructor ps mid)"
  by (simp add: wellFormed_def keysDistinct_def constructor_def)

lemma wellFormed_markInvalid:
  assumes "wellFormed s"
  shows "wellFormed (markInvalidMessageDelivery pid message s)"
proof (cases "map_of (peerStats s) pid")
  case None
  then show ?thesis using assms by (simp add: markInvalidMessageDelivery_def)
next
  case (Some pstats)
  have "statsScored (params s) (fold (markInvalidTopic (params s)) (topicIDs message) pstats)"
    using wellFormed_known [OF assms Some]
    by (intro fold_invariant [where P = "statsScored (params s)"] markInvalidTopic_statsScored)
  then show ?thesis
    using wellFormed_update [OF assms] by (simp add: markInvalidMessageDelivery_def Some)
qed

lemma wellFormed_markFirst:
  assumes "wellFormed s"
  shows "wellFormed (markFirstMessageDelivery pid message s)"
proof (cases "map_of (peerStats s) pid")
  case None
  then show ?thesis using assms by (simp add: markFirstMessageDelivery_def)
next
  case (Some pstats)
  have "statsScored (params s) (fold (markFirstTopic (params s)) (topicIDs message) pstats)"
    using wellFormed_known [OF assms Some]
    by (intro fold_invariant [where P = "statsScored (params s)"] markFirstTopic_statsScored)
  then show ?thesis
    using wellFormed_update [OF assms] by (simp add: markFirstMessageDelivery_def Some)
qed

lemma wellFormed_markDuplicate:
  assumes "wellFormed s"
  shows "wellFormed (markDuplicateMessageDelivery pid message v clock s)"
proof (cases "map_of (peerStats s) pid")
  case None
  then show ?thesis using assms by (simp add: markDuplicateMessageDelivery_def)
next
  case (Some pstats)
  have "statsScored (params s)
      (fold (markDuplicateTopic (params s) v now) (topicIDs message) pstats)" for now
    using wellFormed_known [OF assms Some]
    by (intro fold_invariant [where P = "statsScored (params s)"] markDuplicateTopic_statsScored)
  then show ?thesis
    using wellFormed_update [OF assms]
    by (simp add: markDuplicateMessageDelivery_def Some Let_def)
qed

lemma wellFormed_deliverMessage:
  assumes "wellFormed s"
  shows "wellFormed (deliverMessage tcd now message s)"
proof -
  have loop: "wellFormed (fold (\<lambda>p st. if p \<noteq> q then markDuplicateMessageDelivery p message 0 now st
      else st) xs st0)" if "wellFormed st0" for q xs st0
    using that by (intro fold_invariant [where P = wellFormed]) (auto simp: wellFormed_markDuplicate)
  show ?thesis
    using wellFormed_markFirst [OF assms, of "receivedFrom message" message]
    by (auto simp: deliverMessage_def Let_def loop split: prod.splits)
qed

lemma wellFormed_rejectMessage:
  assumes "wellFormed s"
  shows "wellFormed (rejectMessage tcd now message reason s)"
proof -
  have loop: "wellFormed (fold (\<lambda>p st. markInvalidMessageDelivery p message st) xs st0)"
    if "wellFormed st0" for xs st0
    using that by (intro fold_invariant [where P = wellFormed]) (auto simp: wellFormed_markInvalid)
  show ?thesis
    using assms
    by (auto simp: rejectMessage_def Let_def loop wellFormed_markInvalid split: prod.splits)
qed

lemma wellFormed_duplicateMessage:
  "wellFormed s \<Longrightarrow> wellFormed (duplicateMessage tcd now message s)"
  by (auto simp: duplicateMessage_def Let_def wellFormed_markInvalid wellFormed_markDuplicate
      split: prod.splits DeliveryRecordStatus.splits)

lemma wellFormed_validateMessage:
  "wellFormed s \<Longrightarrow> wellFormed (validateMessage tcd now message s)"
  by (simp add: validateMessage_def)

lemma wellFormed_start: "wellFormed s \<Longrightarrow> wellFormed (start s)"
  by (simp add: start_def)

lemma wellFormed_stop: "wellFormed s \<Longrightarrow> wellFormed (stop s)"
  by (simp add: stop_def wellFormed_def keysDistinct_def)

lemma wellFormed_addPenalty: "wellFormed s \<Longrightarrow> wellFormed (addPenalty pid penalty s)"
proof (cases "map_of (peerStats s) pid")
  case None
  then show "wellFormed s \<Longrightarrow> ?thesis" by (simp add: addPenalty_def)
next
  case (Some pstats)
  assume wf: "wellFormed s"
  have "statsScored (params s) (pstats\<lparr>behaviourPenalty := behaviourPenalty pstats + penalty\<rparr>)"
    using wellFormed_known [OF wf Some] by (simp add: statsScored_def)
  then show ?thesis
    using wellFormed_update [OF wf] by (simp add: addPenalty_def Some)
qed

lemma wellFormed_addPeer:
  assumes "wellFormed s"
  shows "wellFormed (addPeer cm pid s)"
proof -
  have fresh: "statsScored (params s) ((createPeerStats True)\<lparr>ips := ipl\<rparr>)" for ipl
    by (simp add: statsScored_def createPeerStats_def)
  show ?thesis
    using wellFormed_update [OF assms fresh [of "cm pid"], of pid]
    by (simp add: addPeer_def Let_def)
qed

lemma wellFormed_graft:
  assumes "wellFormed s"
  shows "wellFormed (graft now pid topic s)"
proof (cases "map_of (peerStats s) pid")
  case None
  then show ?thesis using assms by (simp add: graft_def)
next
  case (Some pstats)
  note sc = wellFormed_known [OF assms Some]
  show ?thesis
  proof (cases "ensureTopicStats topic pstats (params s)")
    case None
    then show ?thesis using assms by (simp add: graft_def Some)
  next
    case ens: (Some r)
    obtain tstats pstats1 where r: "r = (tstats, pstats1)" by (cases r)
    have "statsScored (params s) (putTopicStats topic tstats' pstats1)" for tstats'
      using ens r ensureTopicStats_statsScored [OF sc] ensureTopicStats_scored
      by (intro statsScored_put) auto
    then show ?thesis
      using wellFormed_update [OF assms] by (simp add: graft_def Some ens r)
  qed
qed

lemma wellFormed_prune:
  assumes "wellFormed s"
  shows "wellFormed (prune pid topic s)"
proof (cases "map_of (peerStats s) pid")
  case None
  then show ?thesis using assms by (simp add: prune_def)
next
  case (Some pstats)
  note sc = wellFormed_known [OF assms Some]
  show ?thesis
  proof (cases "ensureTopicStats topic pstats (params s)")
    case None
    then show ?thesis using assms by (simp add: prune_def Some)
  next
    case ens: (Some r)
    obtain tstats pstats1 where r: "r = (tstats, pstats1)" by (cases r)
    have "statsScored (params s) (putTopicStats topic tstats' pstats1)" for tstats'
      using ens r ensureTopicStats_statsScored [OF sc] ensureTopicStats_scored
      by (intro statsScored_put) auto
    then show ?thesis
      using assms wellFormed_update [OF assms]
      by (simp add: prune_def Some ens r Let_def split: option.splits)
  qed
qed

lemma statsScored_keys:
  "statsScored ps pstats \<longleftrightarrow> (\<forall>topic \<in> set (map fst (topics pstats)). map_of (topicParams ps) topic \<noteq> None)"
  by (auto simp: statsScored_def)

lemma wellFormed_removePeer:
  assumes "wellFormed s"
  shows "\<exists>s'. removePeer cs now pid s = Inr s' \<and> wellFormed s' \<and> params s' = params s"
proof (cases "map_of (peerStats s) pid")
  case None
  then show ?thesis using assms by (simp add: removePeer_def)
next
  case (Some pstats)
  note sc = wellFormed_known [OF assms Some]
  show ?thesis
  proof (cases "score cs pid s > 0")
    case True
    then show ?thesis
      using wellFormed_delete [OF assms, of pid] by (simp add: removePeer_def Some)
  next
    case False
    obtain ts where ts: "removePeerTopics (params s) (topics pstats) = Inr ts"
      using removePeerTopics_scored [of "topics pstats" "params s"] sc
      unfolding statsScored_def by blast
    have "statsScored (params s)
        (pstats\<lparr>topics := ts, connected := False, expire := now + retainScore (params s)\<rparr>)"
      using sc removePeerTopics_keys [OF ts] unfolding statsScored_keys by simp
    then show ?thesis
      using wellFormed_update [OF assms] False by (simp add: removePeer_def Some ts)
  qed
qed

lemma refreshConnected_statsScored:
  "statsScored ps pstats \<Longrightarrow> statsScored ps (refreshConnected ps now pstats)"
proof -
  have "map fst (map (refreshTopic ps now) al) = map fst al" for al
    by (induction al) (auto simp: refreshTopic_key)
  then show "statsScored ps pstats \<Longrightarrow> ?thesis"
    unfolding statsScored_keys by (simp add: refreshConnected_def)
qed

lemma wellFormed_refreshScores:
  assumes "wellFormed s"
  shows "wellFormed (refreshScores now s)"
proof -
  have step: "wellFormed (refreshPeer now e st)"
    if "wellFormed st" and "statsScored (params st) (snd e)" for e st
  proof (cases e)
    case (Pair pid pstats)
    then show ?thesis
      using that wellFormed_delete [OF that(1), of pid] wellFormed_update [OF that(1)]
      by (simp add: refreshPeer_def refreshConnected_statsScored)
  qed
  have loop: "wellFormed (fold (refreshPeer now) es st)"
    if "wellFormed st" and "\<forall>e \<in> set es. statsScored (params st) (snd e)" for es st
    using that
  proof (induction es arbitrary: st)
    case Nil
    then show ?case by simp
  next
    case (Cons e es)
    show ?case
      using Cons.IH [of "refreshPeer now e st"] Cons.prems step [of st e]
      by (simp add: refreshPeer_params)
  qed
  have "\<forall>e \<in> set (peerStats s). statsScored (params s) (snd e)"
    using assms by (auto simp: wellFormed_def)
  then show ?thesis
    using assms by (simp add: refreshScores_def loop)
qed

lemma wellFormed_updateIPs:
  assumes "wellFormed s"
  shows "wellFormed (updateIPs cm s)"
proof -
  have step: "wellFormed (updateIPsPeer cm e st) \<and> params (updateIPsPeer cm e st) = params st"
    if "wellFormed st" and "statsScored (params st) (snd e)" for e st
  proof (cases e)
    case (Pair pid pstats)
    have "statsScored (params st) (pstats\<lparr>ips := cm pid\<rparr>)"
      using that(2) Pair by (simp add: statsScored_def)
    then show ?thesis
      using wellFormed_update [OF that(1)] by (simp add: Pair updateIPsPeer_def Let_def)
  qed
  have loop: "wellFormed (fold (updateIPsPeer cm) es st)"
    if "wellFormed st" and "\<forall>e \<in> set es. statsScored (params st) (snd e)" for es st
    using that
  proof (induction es arbitrary: st)
    case Nil
    then show ?case by simp
  next
    case (Cons e es)
    show ?case
      using Cons.IH [of "updateIPsPeer cm e st"] Cons.prems step [of st e] by simp
  qed
  have "\<forall>e \<in> set (peerStats s). statsScored (params s) (snd e)"
    using assms by (auto simp: wellFormed_def)
  then show ?thesis
    using assms by (simp add: updateIPs_def loop)
qed

lemma wellFormed_step:
  assumes "wellFormed s"
  shows "\<exists>s'. step cs tcd ev s = Inr s' \<and> wellFormed s'"
proof (cases ev)
  case (RemovePeer now pid)
  then show ?thesis using wellFormed_removePeer [OF assms, of cs now pid] by auto
qed (use assms in \<open>simp_all add: wellFormed_addPeer wellFormed_graft wellFormed_prune
    wellFormed_deliverMessage wellFormed_rejectMessage wellFormed_duplicateMessage
    wellFormed_addPenalty wellFormed_refreshScores\<close>)

lemma wellFormed_run:
  "wellFormed s \<Longrightarrow> \<exists>s'. run cs tcd evs s = Inr s' \<and> wellFormed s'"
proof (induction evs arbitrary: s)
  case Nil
  then show ?case by simp
next
  case (Cons ev evs)
  obtain s1 where "step cs tcd ev s = Inr s1" "wellFormed s1"
    using wellFormed_step [OF Cons.prems] by blast
  then show ?case
    using Cons.IH [of s1] by simp
qed

lemma wellFormed_keysDistinct: "wellFormed s \<Longrightarrow> keysDistinct s"
  by (simp add: wellFormed_def)

lemma wellFormed_topics_scored:
  "wellFormed s \<Longrightarrow> map_of (peerStats s) pid = Some pstats \<Longrightarrow>
   \<forall>(topic, tstats) \<in> set (topics pstats). map_of (topicParams (params s)) topic \<noteq> None"
  using wellFormed_known [of s pid pstats] by (simp add: statsScored_def)

subsection \<open>The decay law\<close>

text \<open>
  C5. A connected peer in a state whose \<open>peerStats\<close> has one entry per key (every
  well-formed state is one): after the runs of \<open>refreshScores\<close> at the times \<open>nows\<close>,
  with nothing in between, the behaviour penalty is \<open>decayLaw\<close> of its decay factor, the
  initial value times \<open>decay ^ n\<close> for \<open>n = length nows\<close>, and 0 once one of the decayed
  values of the runs so far is below \<open>decayToZero\<close>; and so is each of the four counters
  of every scored topic the peer has statistics on, with the decay factor of the counter.
\<close>

theorem decay_law_refreshScores:
  assumes "keysDistinct s"
    and "map_of (peerStats s) pid = Some pstats"
    and "connected pstats"
  shows "map_option behaviourPenalty (map_of (peerStats (fold refreshScores nows s)) pid) =
           Some (decayLaw (behaviourPenaltyDecay (params s)) (decayToZero (params s))
                   (length nows) (behaviourPenalty pstats)) \<and>
         (\<forall>topic tstats tparams.
            map_of (topics pstats) topic = Some tstats \<longrightarrow>
            map_of (topicParams (params s)) topic = Some tparams \<longrightarrow>
            map_option firstMessageDeliveries (topicStatsOf (fold refreshScores nows s) pid topic) =
              Some (decayLaw (firstMessageDeliveriesDecay tparams) (decayToZero (params s))
                      (length nows) (firstMessageDeliveries tstats)) \<and>
            map_option meshMessageDeliveries (topicStatsOf (fold refreshScores nows s) pid topic) =
              Some (decayLaw (meshMessageDeliveriesDecay tparams) (decayToZero (params s))
                      (length nows) (meshMessageDeliveries tstats)) \<and>
            map_option meshFailurePenalty (topicStatsOf (fold refreshScores nows s) pid topic) =
              Some (decayLaw (meshFailurePenaltyDecay tparams) (decayToZero (params s))
                      (length nows) (meshFailurePenalty tstats)) \<and>
            map_option invalidMessageDeliveries (topicStatsOf (fold refreshScores nows s) pid topic) =
              Some (decayLaw (invalidMessageDeliveriesDecay tparams) (decayToZero (params s))
                      (length nows) (invalidMessageDeliveries tstats)))"
proof (intro conjI allI impI)
  show "map_option behaviourPenalty (map_of (peerStats (fold refreshScores nows s)) pid) =
      Some (decayLaw (behaviourPenaltyDecay (params s)) (decayToZero (params s))
              (length nows) (behaviourPenalty pstats))"
    using penalty_decayed_n_times [OF assms, of nows] by (auto simp: decayCounter_funpow)
next
  fix topic tstats tparams
  assume stats: "map_of (topics pstats) topic = Some tstats"
    and scored: "map_of (topicParams (params s)) topic = Some tparams"
  note decayed = decayed_n_times [OF assms stats scored, of nows]
  show "map_option firstMessageDeliveries (topicStatsOf (fold refreshScores nows s) pid topic) =
      Some (decayLaw (firstMessageDeliveriesDecay tparams) (decayToZero (params s))
              (length nows) (firstMessageDeliveries tstats))"
    using decayed by (auto simp: topicStatsOf_def decayCounter_funpow)
  show "map_option meshMessageDeliveries (topicStatsOf (fold refreshScores nows s) pid topic) =
      Some (decayLaw (meshMessageDeliveriesDecay tparams) (decayToZero (params s))
              (length nows) (meshMessageDeliveries tstats))"
    using decayed by (auto simp: topicStatsOf_def decayCounter_funpow)
  show "map_option meshFailurePenalty (topicStatsOf (fold refreshScores nows s) pid topic) =
      Some (decayLaw (meshFailurePenaltyDecay tparams) (decayToZero (params s))
              (length nows) (meshFailurePenalty tstats))"
    using decayed by (auto simp: topicStatsOf_def decayCounter_funpow)
  show "map_option invalidMessageDeliveries (topicStatsOf (fold refreshScores nows s) pid topic) =
      Some (decayLaw (invalidMessageDeliveriesDecay tparams) (decayToZero (params s))
              (length nows) (invalidMessageDeliveries tstats))"
    using decayed by (auto simp: topicStatsOf_def decayCounter_funpow)
qed

theorem decay_law_refreshScores_witness:
  "keysDistinct exDecaying \<and>
   map_of (peerStats exDecaying) ''A'' =
     Some ((createPeerStats True)
       \<lparr>topics := [(''T'', createTopicStats\<lparr>inMesh := True, firstMessageDeliveries := 1,
                      meshMessageDeliveries := 1\<rparr>)],
        behaviourPenalty := 1\<rparr>) \<and>
   map_of (topicParams (params exDecaying)) ''T'' = Some exTopicParams \<and>
   map_option firstMessageDeliveries (topicStatsOf (fold refreshScores [4, 5] exDecaying) ''A'' ''T'') =
     Some (1 / 4) \<and>
   map_option behaviourPenalty (map_of (peerStats (fold refreshScores [4, 5] exDecaying)) ''A'') =
     Some (1 / 4) \<and>
   map_option firstMessageDeliveries
     (topicStatsOf (fold refreshScores [4, 5, 6, 7] exDecaying) ''A'' ''T'') = Some 0 \<and>
   map_option invalidMessageDeliveries
     (topicStatsOf (fold refreshScores [4, 5, 6, 7] exDecaying) ''A'' ''T'') = Some 0 \<and>
   keysDistinct exPenalised \<and>
   map_of (peerStats exPenalised) ''A'' = Some ((createPeerStats True)\<lparr>behaviourPenalty := 2\<rparr>) \<and>
   map_option behaviourPenalty (map_of (peerStats (fold refreshScores [4] exPenalised)) ''A'') =
     Some 1"
proof -
  let ?tstats = "createTopicStats\<lparr>inMesh := True, firstMessageDeliveries := 1,
      meshMessageDeliveries := 1\<rparr>"
  let ?pstats = "(createPeerStats True)\<lparr>topics := [(''T'', ?tstats)], behaviourPenalty := 1\<rparr>"
  let ?qstats = "(createPeerStats True)\<lparr>behaviourPenalty := 2\<rparr>"
  have dist: "keysDistinct exDecaying"
    by code_simp
  have known: "map_of (peerStats exDecaying) ''A'' = Some ?pstats"
    by code_simp
  have conn: "connected ?pstats"
    by (simp add: createPeerStats_def)
  have stats: "map_of (topics ?pstats) ''T'' = Some ?tstats"
    by simp
  have scored: "map_of (topicParams (params exDecaying)) ''T'' = Some exTopicParams"
    by code_simp
  have dist2: "keysDistinct exPenalised"
    by code_simp
  have known2: "map_of (peerStats exPenalised) ''A'' = Some ?qstats"
    by code_simp
  have conn2: "connected ?qstats"
    by (simp add: createPeerStats_def)
  have vals: "firstMessageDeliveries ?tstats = 1" "invalidMessageDeliveries ?tstats = 0"
      "behaviourPenalty ?pstats = 1" "behaviourPenalty ?qstats = 2"
      "firstMessageDeliveriesDecay exTopicParams = 1 / 2"
      "invalidMessageDeliveriesDecay exTopicParams = 1 / 2"
      "behaviourPenaltyDecay (params exDecaying) = 1 / 2"
      "decayToZero (params exDecaying) = 1 / 10"
      "behaviourPenaltyDecay (params exPenalised) = 1 / 2"
      "decayToZero (params exPenalised) = 1 / 10"
    by code_simp+
  have law: "decayLaw (1 / 2) (1 / 10) (length [4, 5 :: real]) 1 = 1 / 4"
      "decayLaw (1 / 2) (1 / 10) (length [4, 5, 6, 7 :: real]) 1 = 0"
      "decayLaw (1 / 2) (1 / 10) (length [4, 5, 6, 7 :: real]) 0 = 0"
      "decayLaw (1 / 2) (1 / 10) (length [4 :: real]) 2 = 1"
    by code_simp+
  note short = decay_law_refreshScores [OF dist known conn, of "[4, 5]"]
  note long = decay_law_refreshScores [OF dist known conn, of "[4, 5, 6, 7]"]
  note bare = decay_law_refreshScores [OF dist2 known2 conn2, of "[4]"]
  show ?thesis
    using short [THEN conjunct1] short [THEN conjunct2, rule_format, OF stats scored]
      long [THEN conjunct2, rule_format, OF stats scored] bare [THEN conjunct1]
      dist known scored dist2 known2
    unfolding vals law
    by simp
qed

subsection \<open>Retention\<close>

text \<open>
  C6. In a well-formed state a known peer whose score is not positive is removed at
  \<open>now0\<close>: \<open>removePeer\<close> returns, and the peer's statistics stay, disconnected, with
  \<open>expire = now0 + retainScore\<close>. The behaviour penalty and the IP list are untouched; the
  topics are the same, and on each the statistics object is the one from before with
  \<open>firstMessageDeliveries\<close> set to 0, the squared deficit added to \<open>meshFailurePenalty\<close>
  when the peer was in the mesh with the delivery threshold active and not met, and
  \<open>inMesh\<close> false, every other field as it was. Runs of \<open>refreshScores\<close> at times up to
  \<open>expire\<close> leave the whole statistics object as \<open>removePeer\<close> left it; the next run at
  a time after \<open>expire\<close> deletes the entry and takes the peer out of \<open>peerIPs\<close> under
  each IP of its list.
\<close>

theorem retained_peer_dropped_after_expiry:
  assumes "wellFormed s"
    and "map_of (peerStats s) pid = Some pstats"
    and "score cs pid s \<le> 0"
    and "\<forall>now \<in> set nows. now \<le> now0 + retainScore (params s)"
    and "late > now0 + retainScore (params s)"
  shows "\<exists>s1 pstats1.
           removePeer cs now0 pid s = Inr s1 \<and>
           map_of (peerStats s1) pid = Some pstats1 \<and>
           \<not> connected pstats1 \<and>
           expire pstats1 = now0 + retainScore (params s) \<and>
           behaviourPenalty pstats1 = behaviourPenalty pstats \<and>
           ips pstats1 = ips pstats \<and>
           map fst (topics pstats1) = map fst (topics pstats) \<and>
           (\<forall>topic tstats tparams.
              map_of (topics pstats) topic = Some tstats \<longrightarrow>
              map_of (topicParams (params s)) topic = Some tparams \<longrightarrow>
              map_of (topics pstats1) topic =
                Some (tstats\<lparr>firstMessageDeliveries := 0,
                        meshFailurePenalty :=
                          meshFailurePenalty tstats +
                          (if inMesh tstats \<and> meshMessageDeliveriesActive tstats \<and>
                              meshMessageDeliveries tstats < meshMessageDeliveriesThreshold tparams
                           then (meshMessageDeliveriesThreshold tparams - meshMessageDeliveries tstats) *
                                (meshMessageDeliveriesThreshold tparams - meshMessageDeliveries tstats)
                           else 0),
                        inMesh := False\<rparr>)) \<and>
           map_of (peerStats (fold refreshScores nows s1)) pid = Some pstats1 \<and>
           map_of (peerStats (refreshScores late (fold refreshScores nows s1))) pid = None \<and>
           (\<forall>ip \<in> set (ips pstats1).
              pid \<notin> peersAt (refreshScores late (fold refreshScores nows s1)) ip)"
  using retained_until_expiry [OF wellFormed_keysDistinct [OF assms(1)] assms(2,3)
      wellFormed_topics_scored [OF assms(1,2)] assms(4,5)] .

theorem retained_peer_dropped_after_expiry_witness:
  "wellFormed exRetaining \<and>
   map_of (peerStats exRetaining) ''A'' =
     Some ((createPeerStats True)
       \<lparr>topics := [(''T'', createTopicStats\<lparr>inMesh := True, meshTime := 1001,
                      firstMessageDeliveries := 1, meshMessageDeliveries := 1,
                      meshMessageDeliveriesActive := True\<rparr>)],
        behaviourPenalty := 1, ips := [''1.2.3.4'']\<rparr>) \<and>
   map_of (topicParams (params exRetaining)) ''T'' = Some exTopicParams \<and>
   meshMessageDeliveriesThreshold exTopicParams = 2 \<and>
   score exScore ''A'' exRetaining \<le> 0 \<and>
   retainScore (params exRetaining) = 800 \<and>
   ''A'' \<in> peersAt exRetaining ''1.2.3.4'' \<and>
   (case removePeer exScore 2000 ''A'' exRetaining of
      Inl e \<Rightarrow> False
    | Inr s1 \<Rightarrow>
        map_option expire (map_of (peerStats s1) ''A'') = Some 2800 \<and>
        topicStatsOf s1 ''A'' ''T'' =
          Some (createTopicStats\<lparr>meshTime := 1001, meshMessageDeliveries := 1,
                  meshMessageDeliveriesActive := True, meshFailurePenalty := 1\<rparr>) \<and>
        map_option behaviourPenalty
          (map_of (peerStats (fold refreshScores [2400, 2800] s1)) ''A'') = Some 1 \<and>
        topicStatsOf (fold refreshScores [2400, 2800] s1) ''A'' ''T'' = topicStatsOf s1 ''A'' ''T'' \<and>
        map_of (peerStats (refreshScores 2801 (fold refreshScores [2400, 2800] s1))) ''A'' = None \<and>
        ''A'' \<notin> peersAt (refreshScores 2801 (fold refreshScores [2400, 2800] s1)) ''1.2.3.4'')"
proof -
  let ?tstats = "createTopicStats\<lparr>inMesh := True, meshTime := 1001,
      firstMessageDeliveries := 1, meshMessageDeliveries := 1,
      meshMessageDeliveriesActive := True\<rparr>"
  let ?pstats = "(createPeerStats True)
      \<lparr>topics := [(''T'', ?tstats)], behaviourPenalty := 1, ips := [''1.2.3.4'']\<rparr>"
  have wf: "wellFormed exRetaining"
    by code_simp
  have known: "map_of (peerStats exRetaining) ''A'' = Some ?pstats"
    by code_simp
  have stats: "map_of (topics ?pstats) ''T'' = Some ?tstats"
    by simp
  have scored: "map_of (topicParams (params exRetaining)) ''T'' = Some exTopicParams"
    by code_simp
  have threshold: "meshMessageDeliveriesThreshold exTopicParams = 2"
    by (simp add: exTopicParams_def)
  have low: "score exScore ''A'' exRetaining \<le> 0"
    by (simp add: score_def exScore_def split: option.splits)
  have retain: "retainScore (params exRetaining) = 800"
    by code_simp
  have early: "\<forall>now \<in> set [2400, 2800]. now \<le> 2000 + retainScore (params exRetaining)"
    by (simp add: retain)
  have late: "2801 > 2000 + retainScore (params exRetaining)"
    by (simp add: retain)
  have listed: "''A'' \<in> peersAt exRetaining ''1.2.3.4''"
    by code_simp
  have fields: "behaviourPenalty ?pstats = 1" "ips ?pstats = [''1.2.3.4'']"
    by simp_all
  have after: "?tstats\<lparr>firstMessageDeliveries := 0,
      meshFailurePenalty := meshFailurePenalty ?tstats +
        (if inMesh ?tstats \<and> meshMessageDeliveriesActive ?tstats \<and>
            meshMessageDeliveries ?tstats < meshMessageDeliveriesThreshold exTopicParams
         then (meshMessageDeliveriesThreshold exTopicParams - meshMessageDeliveries ?tstats) *
              (meshMessageDeliveriesThreshold exTopicParams - meshMessageDeliveries ?tstats)
         else 0),
      inMesh := False\<rparr> =
      createTopicStats\<lparr>meshTime := 1001, meshMessageDeliveries := 1,
        meshMessageDeliveriesActive := True, meshFailurePenalty := 1\<rparr>"
    by (simp add: createTopicStats_def threshold)
  obtain s1 pstats1 where r:
      "removePeer exScore 2000 ''A'' exRetaining = Inr s1"
      "map_of (peerStats s1) ''A'' = Some pstats1"
      "expire pstats1 = 2000 + retainScore (params exRetaining)"
      "behaviourPenalty pstats1 = behaviourPenalty ?pstats"
      "ips pstats1 = ips ?pstats"
      "\<forall>topic tstats tparams.
         map_of (topics ?pstats) topic = Some tstats \<longrightarrow>
         map_of (topicParams (params exRetaining)) topic = Some tparams \<longrightarrow>
         map_of (topics pstats1) topic =
           Some (tstats\<lparr>firstMessageDeliveries := 0,
                   meshFailurePenalty :=
                     meshFailurePenalty tstats +
                     (if inMesh tstats \<and> meshMessageDeliveriesActive tstats \<and>
                         meshMessageDeliveries tstats < meshMessageDeliveriesThreshold tparams
                      then (meshMessageDeliveriesThreshold tparams - meshMessageDeliveries tstats) *
                           (meshMessageDeliveriesThreshold tparams - meshMessageDeliveries tstats)
                      else 0),
                   inMesh := False\<rparr>)"
      "map_of (peerStats (fold refreshScores [2400, 2800] s1)) ''A'' = Some pstats1"
      "map_of (peerStats (refreshScores 2801 (fold refreshScores [2400, 2800] s1))) ''A'' = None"
      "\<forall>ip \<in> set (ips pstats1).
         ''A'' \<notin> peersAt (refreshScores 2801 (fold refreshScores [2400, 2800] s1)) ip"
    using retained_peer_dropped_after_expiry [OF wf known low early late] by blast
  have topic1: "map_of (topics pstats1) ''T'' =
      Some (createTopicStats\<lparr>meshTime := 1001, meshMessageDeliveries := 1,
              meshMessageDeliveriesActive := True, meshFailurePenalty := 1\<rparr>)"
    using r(6) [rule_format, OF stats scored] unfolding after .
  show ?thesis
    using wf known scored threshold low retain listed r(1,2,3,4,5,7,8,9) topic1
    by (simp add: topicStatsOf_def)
qed

subsection \<open>The IP index when no known peer is added again\<close>

text \<open>
  Apart from \<open>addPeer\<close> called for a peer that has statistics already, the operations
  keep the IP index and the statistics in agreement.
\<close>

lemma peersAt_bucketOf: "peersAt s ip = bucketOf (peerIPs s) ip"
  by (simp add: peersAt_def bucketOf_def)

lemma bucketOf_removeIP:
  "bucketOf (removeIP q ip' idx) ip = (if ip = ip' then bucketOf idx ip - {q} else bucketOf idx ip)"
  by (auto simp: bucketOf_def removeIP_def Let_def update_conv' delete_conv' split: option.splits)

lemma bucketOf_addNewIP:
  "bucketOf (addNewIP q old ip' idx) ip =
   (if ip = ip' \<and> ip' \<notin> set old then insert q (bucketOf idx ip) else bucketOf idx ip)"
  by (auto simp: bucketOf_def addNewIP_def update_conv' split: option.splits)

lemma bucketOf_fold_addNewIP:
  "bucketOf (fold (addNewIP q old) new idx) ip =
   (if ip \<in> set new \<and> ip \<notin> set old then insert q (bucketOf idx ip) else bucketOf idx ip)"
  by (induction new arbitrary: idx) (auto simp: bucketOf_addNewIP)

lemma bucketOf_fold_removeOldIP:
  "bucketOf (fold (removeOldIP q new) old idx) ip =
   (if ip \<in> set old \<and> ip \<notin> set new then bucketOf idx ip - {q} else bucketOf idx ip)"
  by (induction old arbitrary: idx) (auto simp: removeOldIP_def bucketOf_removeIP)

lemma bucketOf_setIPs:
  "bucketOf (setIPs q new old idx) ip =
   (if ip \<in> set old \<and> ip \<notin> set new then bucketOf idx ip - {q}
    else if ip \<in> set new \<and> ip \<notin> set old then insert q (bucketOf idx ip)
    else bucketOf idx ip)"
  by (auto simp: setIPs_def bucketOf_fold_removeOldIP bucketOf_fold_addNewIP)

lemma bucketOf_removeIPs:
  "bucketOf (removeIPs q ipl idx) ip = (if ip \<in> set ipl then bucketOf idx ip - {q} else bucketOf idx ip)"
  unfolding removeIPs_def
  by (induction ipl arbitrary: idx) (auto simp: bucketOf_removeIP)

lemma noEmptyBucket_removeIP: "noEmptyBucket idx \<Longrightarrow> noEmptyBucket (removeIP q ip idx)"
  by (auto simp: noEmptyBucket_def removeIP_def Let_def update_conv' delete_conv'
      split: option.splits)

lemma noEmptyBucket_addNewIP: "noEmptyBucket idx \<Longrightarrow> noEmptyBucket (addNewIP q old ip idx)"
  by (auto simp: noEmptyBucket_def addNewIP_def update_conv' split: option.splits)

lemma noEmptyBucket_removeIPs: "noEmptyBucket idx \<Longrightarrow> noEmptyBucket (removeIPs q ipl idx)"
  unfolding removeIPs_def
  by (rule fold_invariant [where P = noEmptyBucket]) (simp_all add: noEmptyBucket_removeIP)

lemma noEmptyBucket_setIPs: "noEmptyBucket idx \<Longrightarrow> noEmptyBucket (setIPs q new old idx)"
proof -
  assume ne: "noEmptyBucket idx"
  have added: "noEmptyBucket (fold (addNewIP q old) new idx)"
    by (rule fold_invariant [where P = noEmptyBucket]) (simp_all add: noEmptyBucket_addNewIP ne)
  show ?thesis
    unfolding setIPs_def
    by (rule fold_invariant [where P = noEmptyBucket])
      (simp_all add: removeOldIP_def noEmptyBucket_removeIP added)
qed

text \<open>One peer's IP list is replaced and the index reconciled against the old list.\<close>

lemma ipIndexConsistent_setIPs:
  assumes "ipIndexConsistent s" and "map_of (peerStats s) q = Some qstats"
  shows "ipIndexConsistent
           (s\<lparr>peerIPs := setIPs q new (ips qstats) (peerIPs s),
              peerStats := AList.update q (qstats\<lparr>ips := new\<rparr>) (peerStats s)\<rparr>)"
proof -
  have mem: "p \<in> bucketOf (peerIPs s) ip \<longleftrightarrow>
      (\<exists>pstats. map_of (peerStats s) p = Some pstats \<and> ip \<in> set (ips pstats))" for p ip
    using assms(1) by (simp add: ipIndexConsistent_def peersAt_bucketOf)
  have own: "q \<in> bucketOf (peerIPs s) ip \<longleftrightarrow> ip \<in> set (ips qstats)" for ip
    using mem [of q ip] assms(2) by simp
  have ne: "noEmptyBucket (peerIPs s)"
    using assms(1) by (simp add: ipIndexConsistent_def)
  show ?thesis
    unfolding ipIndexConsistent_def
    using mem own
    by (auto simp: peersAt_bucketOf bucketOf_setIPs update_conv' noEmptyBucket_setIPs [OF ne])
qed

lemma ipIndexConsistent_constructor: "ipIndexConsistent (constructor ps mid)"
  by (simp add: ipIndexConsistent_def constructor_def peersAt_def noEmptyBucket_def)

lemma ipIndexConsistent_addPeer_unknown:
  assumes "ipIndexConsistent s" and "map_of (peerStats s) pid = None"
  shows "ipIndexConsistent (addPeer cm pid s)"
proof -
  let ?s1 = "s\<lparr>peerStats := AList.update pid (createPeerStats True) (peerStats s)\<rparr>"
  have absent: "pid \<notin> peersAt s ip" for ip
    using assms by (simp add: ipIndexConsistent_def)
  have c1: "ipIndexConsistent ?s1"
    using assms(1) absent
    by (auto simp: ipIndexConsistent_def peersAt_def update_conv' createPeerStats_def)
  have known1: "map_of (peerStats ?s1) pid = Some (createPeerStats True)"
    by (simp add: update_conv')
  show ?thesis
    using ipIndexConsistent_setIPs [OF c1 known1, of "cm pid"]
    by (simp add: addPeer_def Let_def)
qed

lemma ipIndexConsistent_drop:
  assumes "ipIndexConsistent s" and "map_of (peerStats s) pid = Some pstats"
  shows "ipIndexConsistent
           (s\<lparr>peerIPs := removeIPs pid (ips pstats) (peerIPs s),
              peerStats := AList.delete pid (peerStats s)\<rparr>)"
proof -
  have mem: "p \<in> bucketOf (peerIPs s) ip \<longleftrightarrow>
      (\<exists>qstats. map_of (peerStats s) p = Some qstats \<and> ip \<in> set (ips qstats))" for p ip
    using assms(1) by (simp add: ipIndexConsistent_def peersAt_bucketOf)
  have own: "pid \<in> bucketOf (peerIPs s) ip \<longleftrightarrow> ip \<in> set (ips pstats)" for ip
    using mem [of pid ip] assms(2) by simp
  have ne: "noEmptyBucket (peerIPs s)"
    using assms(1) by (simp add: ipIndexConsistent_def)
  show ?thesis
    unfolding ipIndexConsistent_def
    using mem own
    by (auto simp: peersAt_bucketOf bucketOf_removeIPs delete_conv' noEmptyBucket_removeIPs [OF ne])
qed

lemma ipIndexConsistent_same_ips:
  assumes "ipIndexConsistent s" and "map_of (peerStats s) pid = Some pstats"
    and "ips pstats' = ips pstats"
  shows "ipIndexConsistent (s\<lparr>peerStats := AList.update pid pstats' (peerStats s)\<rparr>)"
  using assms by (auto simp: ipIndexConsistent_def peersAt_def update_conv')

lemma ipIndexConsistent_removePeer:
  assumes "ipIndexConsistent s" and "removePeer cs now pid s = Inr s'"
  shows "ipIndexConsistent s'"
proof (cases "map_of (peerStats s) pid")
  case None
  then show ?thesis using assms by (simp add: removePeer_def)
next
  case (Some pstats)
  show ?thesis
  proof (cases "score cs pid s > 0")
    case True
    then show ?thesis
      using assms(2) ipIndexConsistent_drop [OF assms(1) Some] by (auto simp: removePeer_def Some)
  next
    case False
    then show ?thesis
      using assms(2) ipIndexConsistent_same_ips [OF assms(1) Some]
      by (auto simp: removePeer_def Some split: sum.splits)
  qed
qed

text \<open>
  A loop over the entries of \<open>peerStats\<close> whose body changes the entry it visits only:
  it keeps a property that each visit keeps.
\<close>

lemma fold_entries_invariant:
  assumes "distinct (map fst es)"
    and "\<forall>(q, qstats) \<in> set es. map_of (peerStats s) q = Some qstats"
    and "P s"
    and visit: "\<And>q qstats st. P st \<Longrightarrow> map_of (peerStats st) q = Some qstats \<Longrightarrow> P (f (q, qstats) st)"
    and frame: "\<And>q qstats r st. r \<noteq> q \<Longrightarrow>
        map_of (peerStats (f (q, qstats) st)) r = map_of (peerStats st) r"
  shows "P (fold f es s)"
  using assms(1,2,3)
proof (induction es arbitrary: s)
  case Nil
  then show ?case by simp
next
  case (Cons e es)
  obtain q qstats where e: "e = (q, qstats)" by (cases e)
  have notin: "q \<notin> fst ` set es" and dist: "distinct (map fst es)"
    using Cons.prems(1) e by auto
  have here: "map_of (peerStats s) q = Some qstats"
    using Cons.prems(2) e by simp
  have agree: "\<forall>(r, rstats) \<in> set es. map_of (peerStats (f e s)) r = Some rstats"
  proof (clarify)
    fix r rstats assume in_es: "(r, rstats) \<in> set es"
    then have "r \<noteq> q" using notin by force
    then show "map_of (peerStats (f e s)) r = Some rstats"
      using Cons.prems(2) in_es e by (auto simp: frame)
  qed
  show ?case
    using Cons.IH [OF dist agree] visit [OF Cons.prems(3) here] e by simp
qed

lemma ipIndexConsistent_updateIPs:
  assumes "keysDistinct s" and "ipIndexConsistent s"
  shows "ipIndexConsistent (updateIPs cm s)"
proof -
  have agree: "\<forall>(q, qstats) \<in> set (peerStats s). map_of (peerStats s) q = Some qstats"
    using assms(1) by (auto simp: keysDistinct_def)
  show ?thesis
    unfolding updateIPs_def
  proof (rule fold_entries_invariant [where P = ipIndexConsistent, OF _ agree assms(2)])
    show "distinct (map fst (peerStats s))"
      using assms(1) by (simp add: keysDistinct_def)
  next
    fix q qstats st
    assume "ipIndexConsistent st" and "map_of (peerStats st) q = Some qstats"
    then show "ipIndexConsistent (updateIPsPeer cm (q, qstats) st)"
      using ipIndexConsistent_setIPs [of st q qstats "cm q"] by (simp add: updateIPsPeer_def Let_def)
  next
    fix q qstats r st
    assume "r \<noteq> (q :: string)"
    then show "map_of (peerStats (updateIPsPeer cm (q, qstats) st)) r = map_of (peerStats st) r"
      by (simp add: updateIPsPeer_def Let_def update_conv')
  qed
qed

lemma ipIndexConsistent_refreshScores:
  assumes "keysDistinct s" and "ipIndexConsistent s"
  shows "ipIndexConsistent (refreshScores now s)"
proof -
  have agree: "\<forall>(q, qstats) \<in> set (peerStats s). map_of (peerStats s) q = Some qstats"
    using assms(1) by (auto simp: keysDistinct_def)
  show ?thesis
    unfolding refreshScores_def
  proof (rule fold_entries_invariant [where P = ipIndexConsistent, OF _ agree assms(2)])
    show "distinct (map fst (peerStats s))"
      using assms(1) by (simp add: keysDistinct_def)
  next
    fix q qstats st
    assume c: "ipIndexConsistent st" and k: "map_of (peerStats st) q = Some qstats"
    have "ips (refreshConnected (params st) now qstats) = ips qstats"
      by (simp add: refreshConnected_def)
    then show "ipIndexConsistent (refreshPeer now (q, qstats) st)"
      using c ipIndexConsistent_drop [OF c k] ipIndexConsistent_same_ips [OF c k]
      by (simp add: refreshPeer_def)
  next
    fix q qstats r st
    assume "r \<noteq> (q :: string)"
    then show "map_of (peerStats (refreshPeer now (q, qstats) st)) r = map_of (peerStats st) r"
      by (simp add: refreshPeer_other)
  qed
qed

lemma ipStep_consistent:
  assumes "wellFormed s" and "ipIndexConsistent s" and "addsUnknown ev s"
  shows "\<exists>s'. ipStep cs ev s = Inr s' \<and> wellFormed s' \<and> ipIndexConsistent s'"
proof (cases ev)
  case (IpAddPeer pid ipl)
  then show ?thesis
    using assms by (simp add: wellFormed_addPeer ipIndexConsistent_addPeer_unknown)
next
  case (IpRemovePeer now pid)
  obtain s' where "removePeer cs now pid s = Inr s'" "wellFormed s'"
    using wellFormed_removePeer [OF assms(1), of cs now pid] by blast
  then show ?thesis
    using IpRemovePeer ipIndexConsistent_removePeer [OF assms(2)] by simp
next
  case (IpUpdateIPs cm)
  then show ?thesis
    using assms by (simp add: wellFormed_updateIPs ipIndexConsistent_updateIPs wellFormed_keysDistinct)
qed

lemma ipRun_consistent:
  assumes "wellFormed s" and "ipIndexConsistent s" and "addsOnlyUnknown cs evs s"
  shows "\<exists>s'. ipRun cs evs s = Inr s' \<and> ipIndexConsistent s'"
  using assms
proof (induction evs arbitrary: s)
  case Nil
  then show ?case by simp
next
  case (Cons ev evs)
  obtain s1 where s1: "ipStep cs ev s = Inr s1" "wellFormed s1" "ipIndexConsistent s1"
    using ipStep_consistent [OF Cons.prems(1,2), of ev cs] Cons.prems(3) by auto
  show ?case
    using Cons.IH [OF s1(2,3)] s1(1) Cons.prems(3) by simp
qed

lemma ip_index_consistent_unless_known_peer_added:
  assumes "addsOnlyUnknown cs evs (constructor ps mid)"
  shows "\<exists>s. ipRun cs evs (constructor ps mid) = Inr s \<and> ipIndexConsistent s"
  using wellFormed_constructor ipIndexConsistent_constructor assms by (rule ipRun_consistent)

end
